theory Spec2Isabelle
  imports Complex_Main "HOL-Library.Log_Nat" "HOL-Library.AList"
begin

section \<open>JavaScript numbers\<close>

text \<open>
  The valuation engine of \<^verbatim>\<open>src/components/SapphireReserveROICalculator.js\<close> computes with
  JavaScript numbers, that is IEEE 754 binary64 values. A number is modelled as a
  rational (the finite doubles), the two infinities, or NaN. Every arithmetic operation
  computes the exact rational result and rounds it to the nearest double, ties to even,
  overflowing to an infinity from \<open>2^1024 - 2^970\<close> on, as the hardware does. The two
  zeros \<open>+0\<close> and \<open>-0\<close> are identified: the engine divides by the constant annual fee only,
  both zeros are falsy and compare equal, so no branch and no numeric output of the engine
  depends on the sign of a zero.
\<close>

datatype num = Fin rat | PInf | NInf | NaN

definition pow2 :: "int \<Rightarrow> rat" where
  "pow2 e = 2 powi e"

definition floor_log2 :: "rat \<Rightarrow> int" where
  \<comment> \<open>for \<open>x > 0\<close>: the \<open>e\<close> with \<open>2^e \<le> x < 2^(e+1)\<close>, from the bit lengths of numerator and denominator\<close>
  "floor_log2 x = (case quotient_of x of (p, q) \<Rightarrow>
     (let e = bitlen p - bitlen q in if pow2 e \<le> x then e else e - 1))"

definition round_half_even :: "rat \<Rightarrow> int" where
  "round_half_even y = (let f = \<lfloor>y\<rfloor>; d = y - of_int f in
     if d < 1 / 2 then f else if 1 / 2 < d then f + 1 else if even f then f else f + 1)"

definition binade :: "rat \<Rightarrow> int" where
  \<comment> \<open>the exponent of the binade of \<open>x\<close>; subnormals share the exponent \<open>-1022\<close>\<close>
  "binade x = max (- 1022) (floor_log2 x)"

definition quantum :: "rat \<Rightarrow> rat" where
  \<comment> \<open>the spacing of the doubles around \<open>x\<close>: 52 fraction bits\<close>
  "quantum x = pow2 (binade x - 52)"

definition round_mag :: "rat \<Rightarrow> rat" where
  "round_mag x = (if x = 0 then 0 else of_int (round_half_even (x / quantum x)) * quantum x)"

definition round64 :: "rat \<Rightarrow> num" where
  "round64 x = (let m = round_mag \<bar>x\<bar> in
     if pow2 1024 \<le> m then (if x < 0 then NInf else PInf)
     else Fin (if x < 0 then - m else m))"

definition lit :: "rat \<Rightarrow> num" where
  \<comment> \<open>a decimal literal of the source text denotes the nearest double\<close>
  "lit x = round64 x"

fun js_neg :: "num \<Rightarrow> num" where
  "js_neg (Fin a) = Fin (- a)"
| "js_neg PInf = NInf"
| "js_neg NInf = PInf"
| "js_neg NaN = NaN"

fun js_add :: "num \<Rightarrow> num \<Rightarrow> num" where
  "js_add (Fin a) (Fin b) = round64 (a + b)"
| "js_add NaN _ = NaN"
| "js_add _ NaN = NaN"
| "js_add PInf NInf = NaN"
| "js_add NInf PInf = NaN"
| "js_add PInf _ = PInf"
| "js_add _ PInf = PInf"
| "js_add NInf _ = NInf"
| "js_add _ NInf = NInf"

definition js_sub :: "num \<Rightarrow> num \<Rightarrow> num" where
  "js_sub a b = js_add a (js_neg b)"

definition inf_of_sign :: "rat \<Rightarrow> num" where
  \<comment> \<open>an infinity times a finite number of sign \<open>s\<close>\<close>
  "inf_of_sign s = (if s = 0 then NaN else if 0 < s then PInf else NInf)"

fun js_mul :: "num \<Rightarrow> num \<Rightarrow> num" where
  "js_mul (Fin a) (Fin b) = round64 (a * b)"
| "js_mul NaN _ = NaN"
| "js_mul _ NaN = NaN"
| "js_mul PInf (Fin b) = inf_of_sign b"
| "js_mul NInf (Fin b) = inf_of_sign (- b)"
| "js_mul (Fin a) PInf = inf_of_sign a"
| "js_mul (Fin a) NInf = inf_of_sign (- a)"
| "js_mul PInf PInf = PInf"
| "js_mul NInf NInf = PInf"
| "js_mul PInf NInf = NInf"
| "js_mul NInf PInf = NInf"

fun js_div :: "num \<Rightarrow> num \<Rightarrow> num" where
  \<comment> \<open>a zero divisor is read as \<open>+0\<close>; the engine only ever divides by the literal 795\<close>
  "js_div (Fin a) (Fin b) = (if b = 0 then inf_of_sign a else round64 (a / b))"
| "js_div NaN _ = NaN"
| "js_div _ NaN = NaN"
| "js_div (Fin a) PInf = Fin 0"
| "js_div (Fin a) NInf = Fin 0"
| "js_div PInf (Fin b) = (if b < 0 then NInf else PInf)"
| "js_div NInf (Fin b) = (if b < 0 then PInf else NInf)"
| "js_div PInf PInf = NaN"
| "js_div PInf NInf = NaN"
| "js_div NInf PInf = NaN"
| "js_div NInf NInf = NaN"

fun js_lt :: "num \<Rightarrow> num \<Rightarrow> bool" where
  \<comment> \<open>\<^verbatim>\<open>a < b\<close>; \<^verbatim>\<open>a > b\<close> is \<open>js_lt b a\<close>. Any comparison with NaN is false.\<close>
  "js_lt (Fin a) (Fin b) = (a < b)"
| "js_lt NaN _ = False"
| "js_lt _ NaN = False"
| "js_lt PInf _ = False"
| "js_lt _ PInf = True"
| "js_lt _ NInf = False"
| "js_lt NInf _ = True"

fun js_le :: "num \<Rightarrow> num \<Rightarrow> bool" where
  \<comment> \<open>\<^verbatim>\<open>a <= b\<close>; \<^verbatim>\<open>a >= b\<close> is \<open>js_le b a\<close>\<close>
  "js_le (Fin a) (Fin b) = (a \<le> b)"
| "js_le NaN _ = False"
| "js_le _ NaN = False"
| "js_le NInf _ = True"
| "js_le _ NInf = False"
| "js_le _ PInf = True"
| "js_le PInf _ = False"

definition isNaN :: "num \<Rightarrow> bool" where
  "isNaN x = (x = NaN)"

definition isFinite :: "num \<Rightarrow> bool" where
  "isFinite x = (case x of Fin _ \<Rightarrow> True | _ \<Rightarrow> False)"

definition Math_max :: "num \<Rightarrow> num \<Rightarrow> num" where
  "Math_max a b = (if isNaN a \<or> isNaN b then NaN else if js_lt a b then b else a)"

definition Math_min :: "num \<Rightarrow> num \<Rightarrow> num" where
  "Math_min a b = (if isNaN a \<or> isNaN b then NaN else if js_lt b a then b else a)"

section \<open>JavaScript values\<close>

text \<open>
  The component keeps its form state in an object whose properties are numbers and
  booleans: \<^verbatim>\<open>handleInputChange\<close> stores \<^verbatim>\<open>Number(text)\<close> (with NaN replaced by 0),
  \<^verbatim>\<open>parseInt(text) || 0\<close>, \<^verbatim>\<open>Number(text) || 0\<close> or a negated boolean. The model also
  admits \<^verbatim>\<open>undefined\<close> and \<^verbatim>\<open>null\<close> as property values and as the whole input, and
  objects with missing properties, to cover the defensive paths of the engine. Strings,
  nested objects and functions are outside the value model.
\<close>

datatype jsval = Undefined | Null | Bool bool | Num num

type_synonym obj = "(string \<times> jsval) list"

datatype jsinput = Prim jsval | Obj obj

definition get :: "obj \<Rightarrow> string \<Rightarrow> jsval" where
  \<comment> \<open>property read \<^verbatim>\<open>ob.k\<close>: a missing property reads as \<^verbatim>\<open>undefined\<close>\<close>
  "get ob k = (case map_of ob k of None \<Rightarrow> Undefined | Some v \<Rightarrow> v)"

fun ToNumber :: "jsval \<Rightarrow> num" where
  "ToNumber Undefined = NaN"
| "ToNumber Null = Fin 0"
| "ToNumber (Bool b) = (if b then Fin 1 else Fin 0)"
| "ToNumber (Num n) = n"

fun ToBoolean :: "jsval \<Rightarrow> bool" where
  "ToBoolean Undefined = False"
| "ToBoolean Null = False"
| "ToBoolean (Bool b) = b"
| "ToBoolean (Num n) = (n \<noteq> NaN \<and> n \<noteq> Fin 0)"

definition js_or :: "jsval \<Rightarrow> jsval \<Rightarrow> jsval" where
  \<comment> \<open>\<^verbatim>\<open>a || b\<close>\<close>
  "js_or a b = (if ToBoolean a then a else b)"

section \<open>The valuation engine\<close>

subsection \<open>Constants and input validation\<close>

definition POINT_VALUES_min :: num where "POINT_VALUES_min = lit (15 / 1000)"
definition POINT_VALUES_max :: num where "POINT_VALUES_max = lit (20 / 1000)"
definition POINT_VALUES_avg :: num where "POINT_VALUES_avg = lit (175 / 10000)"

definition MULTIPLIERS_chaseTravel :: num where "MULTIPLIERS_chaseTravel = Fin 8"
definition MULTIPLIERS_flightsHotels :: num where "MULTIPLIERS_flightsHotels = Fin 4"
definition MULTIPLIERS_dining :: num where "MULTIPLIERS_dining = Fin 3"
definition MULTIPLIERS_otherSpending :: num where "MULTIPLIERS_otherSpending = Fin 1"

datatype error = Invalid_inputs | Invalid_points | Invalid_results | TypeError

fun sanitize :: "jsval \<Rightarrow> jsval" where
  \<comment> \<open>the body of the \<^verbatim>\<open>forEach\<close> of \<^verbatim>\<open>validateInputs\<close>, by \<^verbatim>\<open>typeof value\<close>\<close>
  "sanitize (Num n) = Num (if isNaN n \<or> \<not> isFinite n then Fin 0 else n)"
| "sanitize (Bool b) = Bool b"
| "sanitize Undefined = Num (Fin 0)"
| "sanitize Null = Num (Fin 0)"

fun validateInputs :: "jsinput \<Rightarrow> error + obj" where
  \<comment> \<open>\<^verbatim>\<open>!inputs || typeof inputs !== 'object'\<close> holds of every primitive: \<^verbatim>\<open>undefined\<close> and
     \<^verbatim>\<open>null\<close> are falsy, booleans and numbers are not of type object\<close>
  "validateInputs (Prim v) = Inl Invalid_inputs"
| "validateInputs (Obj ob) = Inr (map (\<lambda>(k, v). (k, sanitize v)) ob)"

subsection \<open>Results\<close>

text \<open>
  A breakdown entry \<^verbatim>\<open>{ value, min, max, details }\<close>; the fields are named \<open>val\<close>,
  \<open>minv\<close>, \<open>maxv\<close> and \<open>details\<close>. Local variables of the source that share their
  name with a function or a field of the model are abbreviated. The details text is kept as the list of the pieces
  the source concatenates, with the number formatting left unevaluated.
\<close>

datatype piece = Lit string | ToStr jsval | ToLocaleString num

record benefit =
  val :: num
  minv :: num
  maxv :: num
  details :: "piece list"

type_synonym breakdown = "(string \<times> benefit) list"

record results =
  totalValue :: num
  totalCost :: num
  roi :: num
  minROI :: num
  maxROI :: num
  breakdown :: breakdown

definition requiredKeys :: "string list" where
  "requiredKeys = [''totalValue'', ''totalCost'', ''roi'', ''minROI'', ''maxROI'', ''breakdown'']"

definition results_keys :: "results \<Rightarrow> string list" where
  \<comment> \<open>the own properties of the object literal that \<^verbatim>\<open>calculateROI\<close> builds\<close>
  "results_keys r = [''totalValue'', ''totalCost'', ''roi'', ''minROI'', ''maxROI'', ''breakdown'']"

definition isValidResults :: "results \<Rightarrow> bool" where
  "isValidResults r = list_all (\<lambda>key. key \<in> set (results_keys r)) requiredKeys"

definition fallback :: results where
  \<comment> \<open>the object returned by the \<^verbatim>\<open>catch\<close> block\<close>
  "fallback = \<lparr>totalValue = Fin 0, totalCost = Fin 795, roi = Fin (- 100),
     minROI = Fin (- 100), maxROI = Fin (- 100), breakdown = []\<rparr>"

subsection \<open>Total spending and the high-spender qualification\<close>

fun getprop :: "jsinput \<Rightarrow> string \<Rightarrow> error + jsval" where
  \<comment> \<open>\<^verbatim>\<open>inputs.k\<close> on the raw state: reading a property of \<^verbatim>\<open>undefined\<close> or \<^verbatim>\<open>null\<close> throws\<close>
  "getprop (Prim Undefined) k = Inl TypeError"
| "getprop (Prim Null) k = Inl TypeError"
| "getprop (Prim (Bool b)) k = Inr Undefined"
| "getprop (Prim (Num n)) k = Inr Undefined"
| "getprop (Obj ob) k = Inr (get ob k)"

definition totalAnnualSpending_try :: "jsinput \<Rightarrow> error + num" where
  "totalAnnualSpending_try inputs =
     (case getprop inputs ''chaseTravel'' of Inl e \<Rightarrow> Inl e | Inr chaseTravel \<Rightarrow>
     (case getprop inputs ''flightsHotels'' of Inl e \<Rightarrow> Inl e | Inr flightsHotels \<Rightarrow>
     (case getprop inputs ''dining'' of Inl e \<Rightarrow> Inl e | Inr dining \<Rightarrow>
     (case getprop inputs ''otherSpending'' of Inl e \<Rightarrow> Inl e | Inr otherSpending \<Rightarrow>
        (let tot = js_add (js_add (js_add (ToNumber chaseTravel) (ToNumber flightsHotels))
                       (ToNumber dining)) (ToNumber otherSpending)
         in Inr (if isNaN tot then Fin 0 else tot))))))"

definition totalAnnualSpending :: "jsinput \<Rightarrow> num" where
  "totalAnnualSpending inputs =
     (case totalAnnualSpending_try inputs of Inl e \<Rightarrow> Fin 0 | Inr tot \<Rightarrow> tot)"

definition qualifiesForHighSpender :: "jsinput \<Rightarrow> bool" where
  "qualifiesForHighSpender inputs = js_le (Fin 75000) (totalAnnualSpending inputs)"

subsection \<open>The benefit categories\<close>

definition totalPoints :: "obj \<Rightarrow> num" where
  "totalPoints safeInputs =
     js_add (js_add (js_add
       (js_mul (ToNumber (get safeInputs ''chaseTravel'')) MULTIPLIERS_chaseTravel)
       (js_mul (ToNumber (get safeInputs ''flightsHotels'')) MULTIPLIERS_flightsHotels))
       (js_mul (ToNumber (get safeInputs ''dining'')) MULTIPLIERS_dining))
       (js_mul (ToNumber (get safeInputs ''otherSpending'')) MULTIPLIERS_otherSpending)"

definition points :: "num \<Rightarrow> breakdown" where
  "points tp =
     (let pointsValue = js_mul tp POINT_VALUES_avg
      in [(''points'', \<lparr>val = pointsValue, minv = js_mul tp POINT_VALUES_min,
             maxv = js_mul tp POINT_VALUES_max,
             details = [ToLocaleString tp, Lit '' points earned'']\<rparr>)])"

definition capped :: "jsval \<Rightarrow> num \<Rightarrow> num" where
  \<comment> \<open>\<^verbatim>\<open>Math.min(Math.max(v || 0, 0), cap)\<close>\<close>
  "capped v cap = Math_min (Math_max (ToNumber (js_or v (Num (Fin 0)))) (Fin 0)) cap"

definition travelCredit :: "obj \<Rightarrow> breakdown" where
  "travelCredit safeInputs =
     (let credit = capped (get safeInputs ''travelCreditUsage'') (Fin 300)
      in [(''travelCredit'', \<lparr>val = credit, minv = credit, maxv = credit,
             details = [Lit ''$'', ToStr (Num credit), Lit '' travel credit used'']\<rparr>)])"

definition diningCredit :: "obj \<Rightarrow> breakdown" where
  "diningCredit safeInputs =
     (let diningCreditValue = capped (get safeInputs ''diningCredit'') (Fin 300)
      in [(''diningCredit'', \<lparr>val = diningCreditValue, minv = diningCreditValue,
             maxv = diningCreditValue,
             details = [Lit ''$'', ToStr (Num diningCreditValue), Lit '' annual dining credit'']\<rparr>)])"

definition editCredit :: "obj \<Rightarrow> breakdown" where
  "editCredit safeInputs =
     (let credit = capped (get safeInputs ''editStaysValue'') (Fin 500)
      in if js_lt (Fin 0) credit
         then [(''editCredit'', \<lparr>val = credit, minv = credit, maxv = credit,
             details = [Lit ''$'', ToStr (Num credit), Lit '' Edit stays credit'']\<rparr>)]
         else [])"

definition stubhubCredit :: "obj \<Rightarrow> breakdown" where
  "stubhubCredit safeInputs =
     (let credit = capped (get safeInputs ''stubhubSpending'') (Fin 300)
      in if js_lt (Fin 0) credit
         then [(''stubhubCredit'', \<lparr>val = credit, minv = credit, maxv = credit,
             details = [Lit ''$'', ToStr (Num credit), Lit '' StubHub credit'']\<rparr>)]
         else [])"

definition dashpass :: "obj \<Rightarrow> breakdown" where
  "dashpass safeInputs =
     (let dashpassUsage = js_or (get safeInputs ''dashpassUsage'') (Num (Fin 0));
          dashpassValue = js_mul (ToNumber dashpassUsage) (lit (999 / 100))
      in if js_lt (Fin 0) dashpassValue
         then [(''dashpass'', \<lparr>val = dashpassValue, minv = js_mul dashpassValue (lit (5 / 10)),
             maxv = dashpassValue,
             details = [ToStr dashpassUsage, Lit '' months of DashPass'']\<rparr>)]
         else [])"

definition doorDashCredits :: "obj \<Rightarrow> breakdown" where
  "doorDashCredits safeInputs =
     (let restaurantCredits =
            js_mul (js_mul (if ToBoolean (get safeInputs ''restaurantOrders'') then Fin 1 else Fin 0)
              (Fin 5)) (Fin 12);
          nonRestaurantCredits =
            js_mul (js_mul (if ToBoolean (get safeInputs ''nonRestaurantOrders'') then Fin 2 else Fin 0)
              (Fin 10)) (Fin 12);
          totalDoorDashCredits = js_add restaurantCredits nonRestaurantCredits
      in if js_lt (Fin 0) totalDoorDashCredits
         then [(''doorDashCredits'', \<lparr>val = totalDoorDashCredits,
             minv = js_mul totalDoorDashCredits (lit (7 / 10)), maxv = totalDoorDashCredits,
             details = [Lit ''DoorDash credits: $'', ToStr (Num totalDoorDashCredits), Lit ''/year'']\<rparr>)]
         else [])"

definition lyft :: "obj \<Rightarrow> breakdown" where
  "lyft safeInputs =
     (let lyftRides = ToNumber (js_or (get safeInputs ''lyftRides'') (Num (Fin 0)));
          lyftCredits = Math_min (js_mul lyftRides (Fin 10)) (Fin 120);
          lyftBonusPoints = js_mul (js_mul lyftRides (Fin 20)) (Fin 4);
          lyftTotal = js_add lyftCredits (js_mul lyftBonusPoints POINT_VALUES_avg)
      in if js_lt (Fin 0) lyftTotal
         then [(''lyft'', \<lparr>val = lyftTotal,
             minv = js_add lyftCredits (js_mul lyftBonusPoints POINT_VALUES_min),
             maxv = js_add lyftCredits (js_mul lyftBonusPoints POINT_VALUES_max),
             details = [Lit ''Lyft credits and bonus points'']\<rparr>)]
         else [])"

definition peloton :: "obj \<Rightarrow> breakdown" where
  "peloton safeInputs =
     (let pelotonValue0 = Fin 0;
          pelotonValue1 = (if ToBoolean (get safeInputs ''pelotonMembership'')
                           then js_add pelotonValue0 (Fin 120) else pelotonValue0);
          pelotonValue = (if js_lt (Fin 0) (ToNumber (get safeInputs ''pelotonEquipment''))
                          then (let bonusPoints =
                                  js_mul (Math_min (ToNumber (get safeInputs ''pelotonEquipment'')) (Fin 5000)) (Fin 9)
                                in js_add pelotonValue1 (js_mul bonusPoints POINT_VALUES_avg))
                          else pelotonValue1)
      in if js_lt (Fin 0) pelotonValue
         then [(''peloton'', \<lparr>val = pelotonValue, minv = js_mul pelotonValue (lit (8 / 10)),
             maxv = js_mul pelotonValue (lit (12 / 10)),
             details = [Lit ''Peloton benefits'']\<rparr>)]
         else [])"

definition priorityPass :: "obj \<Rightarrow> breakdown" where
  "priorityPass safeInputs =
     (let priorityPassVisits = js_or (get safeInputs ''priorityPassVisits'') (Num (Fin 0));
          priorityPassValue = js_mul (ToNumber priorityPassVisits) (Fin 35)
      in if js_lt (Fin 0) priorityPassValue
         then [(''priorityPass'', \<lparr>val = priorityPassValue,
             minv = js_mul priorityPassValue (lit (5 / 10)),
             maxv = js_mul priorityPassValue (lit (15 / 10)),
             details = [ToStr priorityPassVisits, Lit '' lounge visits'']\<rparr>)]
         else [])"

definition globalEntry :: "obj \<Rightarrow> breakdown" where
  "globalEntry safeInputs =
     (let gev = (if ToBoolean (get safeInputs ''globalEntryValue'') then Fin 24 else Fin 0)
      in if js_lt (Fin 0) gev
         then [(''globalEntry'', \<lparr>val = gev, minv = gev, maxv = gev,
             details = [Lit ''Global Entry credit ($120 every 5 years)'']\<rparr>)]
         else [])"

definition appleServices :: "obj \<Rightarrow> breakdown" where
  "appleServices safeInputs =
     (let appleServicesValue = (if ToBoolean (get safeInputs ''appleServices'')
            then js_mul (js_add (lit (699 / 100)) (lit (1099 / 100))) (Fin 12) else Fin 0)
      in if js_lt (Fin 0) appleServicesValue
         then [(''appleServices'', \<lparr>val = appleServicesValue,
             minv = js_mul appleServicesValue (lit (3 / 10)), maxv = appleServicesValue,
             details = [Lit ''Apple TV+ and Apple Music'']\<rparr>)]
         else [])"

definition highSpenderValue :: "obj \<Rightarrow> bool \<Rightarrow> num" where
  "highSpenderValue safeInputs qualifies =
     (let v0 = Fin 0 in
      if qualifies then
        (let v1 = (if ToBoolean (get safeInputs ''useShopsCredit'') then js_add v0 (Fin 250) else v0);
             v2 = (if ToBoolean (get safeInputs ''useSouthwestCredit'') then js_add v1 (Fin 500) else v1);
             v3 = (if ToBoolean (get safeInputs ''useIHGDiamond'') then js_add v2 (Fin 200) else v2);
             v4 = (if ToBoolean (get safeInputs ''useSouthwestAList'') then js_add v3 (Fin 150) else v3)
         in v4)
      else v0)"

definition highSpender :: "obj \<Rightarrow> bool \<Rightarrow> breakdown" where
  "highSpender safeInputs qualifies =
     (let hsv = highSpenderValue safeInputs qualifies
      in if js_lt (Fin 0) hsv
         then [(''highSpender'', \<lparr>val = hsv,
             minv = js_mul hsv (lit (8 / 10)),
             maxv = js_mul hsv (lit (12 / 10)),
             details = [Lit ''High spender benefits: $'', ToStr (Num hsv), Lit '' selected'']\<rparr>)]
         else [])"

subsection \<open>Aggregation and the result\<close>

definition num_or :: "num \<Rightarrow> num \<Rightarrow> num" where
  \<comment> \<open>\<^verbatim>\<open>a || b\<close> on numbers: 0 and NaN are falsy\<close>
  "num_or a b = (if a \<noteq> NaN \<and> a \<noteq> Fin 0 then a else b)"

definition aggregate :: "(benefit \<Rightarrow> num) \<Rightarrow> breakdown \<Rightarrow> num" where
  \<comment> \<open>\<^verbatim>\<open>Object.values(breakdown).reduce(...)\<close> over one field of the entries, in insertion order\<close>
  "aggregate field bd =
     foldl (\<lambda>sum benefit. let v = num_or (field benefit) (Fin 0)
                           in js_add sum (if isNaN v then Fin 0 else v))
       (Fin 0) (map snd bd)"

definition roi_of :: "num \<Rightarrow> num" where
  \<comment> \<open>\<^verbatim>\<open>v > 0 ? ((v - 795) / 795) * 100 : -100\<close>\<close>
  "roi_of v = (if js_lt (Fin 0) v
     then js_mul (js_div (js_sub v (Fin 795)) (Fin 795)) (Fin 100) else Fin (- 100))"

definition build_breakdown :: "obj \<Rightarrow> bool \<Rightarrow> error + breakdown" where
  \<comment> \<open>the body of \<^verbatim>\<open>calculateROI\<close> up to the last assignment to \<^verbatim>\<open>breakdown\<close>\<close>
  "build_breakdown safeInputs qualifies =
     (let tp = totalPoints safeInputs
      in if isNaN tp \<or> \<not> isFinite tp then Inl Invalid_points
         else Inr (points tp @ travelCredit safeInputs @ diningCredit safeInputs
                @ editCredit safeInputs @ stubhubCredit safeInputs @ dashpass safeInputs
                @ doorDashCredits safeInputs @ lyft safeInputs @ peloton safeInputs
                @ priorityPass safeInputs @ globalEntry safeInputs @ appleServices safeInputs
                @ highSpender safeInputs qualifies))"

definition assemble :: "breakdown \<Rightarrow> error + results" where
  \<comment> \<open>from \<^verbatim>\<open>const benefitValues = Object.values(breakdown)\<close> to \<^verbatim>\<open>return results\<close>\<close>
  "assemble bd =
     (let totalValue0 = aggregate val bd;
          minValue = aggregate minv bd;
          maxValue = aggregate maxv bd;
          roi0 = roi_of totalValue0;
          minROI0 = roi_of minValue;
          maxROI0 = roi_of maxValue;
          res = \<lparr>totalValue = (if isNaN totalValue0 then Fin 0 else totalValue0),
                  totalCost = Fin 795,
                  roi = (if isNaN roi0 then Fin (- 100) else roi0),
                  minROI = (if isNaN minROI0 then Fin (- 100) else minROI0),
                  maxROI = (if isNaN maxROI0 then Fin (- 100) else maxROI0),
                  breakdown = bd\<rparr>
      in if \<not> isValidResults res then Inl Invalid_results else Inr res)"

definition calculateROI_try :: "jsinput \<Rightarrow> bool \<Rightarrow> error + results" where
  \<comment> \<open>the \<^verbatim>\<open>try\<close> block; \<open>qualifies\<close> is the memoized \<^verbatim>\<open>qualifiesForHighSpender\<close> the closure reads\<close>
  "calculateROI_try inputs qualifies =
     (case validateInputs inputs of Inl e \<Rightarrow> Inl e | Inr safeInputs \<Rightarrow>
     (case build_breakdown safeInputs qualifies of Inl e \<Rightarrow> Inl e | Inr bd \<Rightarrow> assemble bd))"

definition calculateROI :: "jsinput \<Rightarrow> bool \<Rightarrow> results" where
  "calculateROI inputs qualifies =
     (case calculateROI_try inputs qualifies of Inl e \<Rightarrow> fallback | Inr res \<Rightarrow> res)"

definition compute :: "jsinput \<Rightarrow> results" where
  \<comment> \<open>the engine as the component runs it: \<^verbatim>\<open>calculateROI\<close> on the current state, with the
     qualification computed from the same state\<close>
  "compute inputs = calculateROI inputs (qualifiesForHighSpender inputs)"

definition lookup :: "breakdown \<Rightarrow> string \<Rightarrow> benefit option" where
  \<comment> \<open>\<^verbatim>\<open>breakdown[key]\<close>\<close>
  "lookup bd key = map_of bd key"

definition keys :: "breakdown \<Rightarrow> string list" where
  \<comment> \<open>\<^verbatim>\<open>Object.keys(breakdown)\<close>\<close>
  "keys bd = map fst bd"

definition sum_js :: "num list \<Rightarrow> num" where
  \<comment> \<open>the sum of a list of numbers, added from left to right as JavaScript does\<close>
  "sum_js xs = foldl js_add (Fin 0) xs"

subsection \<open>The component state\<close>

definition initial_inputs :: obj where
  \<comment> \<open>the initial \<^verbatim>\<open>useState\<close> value of \<^verbatim>\<open>inputs\<close>\<close>
  "initial_inputs =
     [(''chaseTravel'', Num (Fin 0)),
      (''flightsHotels'', Num (Fin 0)),
      (''dining'', Num (Fin 0)),
      (''otherSpending'', Num (Fin 0)),
      (''travelCreditUsage'', Num (Fin 300)),
      (''editStaysValue'', Num (Fin 0)),
      (''stubhubSpending'', Num (Fin 0)),
      (''diningCredit'', Num (Fin 300)),
      (''dashpassUsage'', Num (Fin 12)),
      (''restaurantOrders'', Bool False),
      (''nonRestaurantOrders'', Bool False),
      (''lyftRides'', Num (Fin 0)),
      (''pelotonMembership'', Bool False),
      (''pelotonEquipment'', Num (Fin 0)),
      (''appleServices'', Bool False),
      (''priorityPassVisits'', Num (Fin 0)),
      (''globalEntryValue'', Bool False),
      (''useShopsCredit'', Bool False),
      (''useSouthwestCredit'', Bool False),
      (''useIHGDiamond'', Bool False),
      (''useSouthwestAList'', Bool False)]"

definition setInputs :: "string \<Rightarrow> jsval \<Rightarrow> obj \<Rightarrow> obj" where
  \<comment> \<open>\<^verbatim>\<open>setInputs(prev => ({ ...prev, [field]: value }))\<close>\<close>
  "setInputs field v prev = AList.update field v prev"

definition zero_inputs :: obj where
  \<comment> \<open>the initial state with the three non-zero defaults set to 0\<close>
  "zero_inputs = setInputs ''travelCreditUsage'' (Num (Fin 0))
     (setInputs ''diningCredit'' (Num (Fin 0))
     (setInputs ''dashpassUsage'' (Num (Fin 0)) initial_inputs))"

subsection \<open>The qualification as claim C3 words it\<close>

definition sanitized_spending :: "jsinput \<Rightarrow> num" where
  \<comment> \<open>the sum of the four spending fields after sanitization; the engine itself never
     computes it, it reads \<open>qualifiesForHighSpender\<close> of the raw state\<close>
  "sanitized_spending inputs =
     (case validateInputs inputs of Inl e \<Rightarrow> Fin 0 | Inr safe \<Rightarrow> totalAnnualSpending (Obj safe))"

subsection \<open>Auxiliary predicates for the proofs\<close>

text \<open>
  \<open>nonneg\<close> and \<open>nonpos\<close> are \<^verbatim>\<open>0 <= v\<close> and \<^verbatim>\<open>v <= 0\<close>; \<open>is_double\<close> says that a finite
  value is one that the rounding leaves alone; \<open>band_ok\<close> is the ordering of an entry's
  band above zero; \<open>acc_ok\<close> is the invariant of the running sums; \<open>others\<close> names the
  entries after \<open>points\<close>; \<open>roi_ratio\<close> is the arithmetic of \<open>roi_of\<close>.
\<close>

definition nonneg :: "num \<Rightarrow> bool" where
  "nonneg v = js_le (Fin 0) v"

definition is_double :: "num \<Rightarrow> bool" where
  "is_double v = (case v of Fin x \<Rightarrow> round64 x = Fin x | _ \<Rightarrow> True)"

definition band_ok :: "benefit \<Rightarrow> bool" where
  "band_ok b = (nonneg (minv b) \<and> js_le (minv b) (val b) \<and> js_le (val b) (maxv b))"

definition nonpos :: "num \<Rightarrow> bool" where
  "nonpos v = js_le v (Fin 0)"

definition acc_ok :: "num \<Rightarrow> bool" where
  "acc_ok a = (a \<noteq> NaN \<and> a \<noteq> NInf \<and> is_double a)"

definition roi_ratio :: "num \<Rightarrow> num" where
  \<comment> \<open>the ratio of \<open>roi_of\<close> without its guard\<close>
  "roi_ratio v = js_mul (js_div (js_sub v (Fin 795)) (Fin 795)) (Fin 100)"

definition weighted :: "num \<Rightarrow> num \<Rightarrow> num \<Rightarrow> num \<Rightarrow> num" where
  \<comment> \<open>\<open>totalPoints\<close> as a function of the four spending numbers\<close>
  "weighted a b c d =
     js_add (js_add (js_add (js_mul a (Fin 8)) (js_mul b (Fin 4))) (js_mul c (Fin 3))) (js_mul d (Fin 1))"

definition others :: "obj \<Rightarrow> bool \<Rightarrow> breakdown" where
  "others safeInputs qualifies =
     travelCredit safeInputs @ diningCredit safeInputs
       @ editCredit safeInputs @ stubhubCredit safeInputs @ dashpass safeInputs
       @ doorDashCredits safeInputs @ lyft safeInputs @ peloton safeInputs
       @ priorityPass safeInputs @ globalEntry safeInputs @ appleServices safeInputs
       @ highSpender safeInputs qualifies"

section \<open>Properties of the rounding\<close>

subsection \<open>Powers of two and the binade of a rational\<close>

lemma pow2_pos [simp]: "0 < pow2 e"
  by (simp add: pow2_def)

lemma pow2_add: "pow2 (a + b) = pow2 a * pow2 b"
  by (simp add: pow2_def power_int_add)

lemma pow2_strict_mono: "a < b \<Longrightarrow> pow2 a < pow2 b"
  by (simp add: pow2_def power_int_strict_increasing)

lemma pow2_less_iff [simp]: "pow2 a < pow2 b \<longleftrightarrow> a < b"
proof
  assume h: "pow2 a < pow2 b"
  show "a < b"
  proof (rule ccontr)
    assume "\<not> a < b"
    then have "b = a \<or> b < a" by linarith
    then have "pow2 b \<le> pow2 a" using pow2_strict_mono [of b a] by auto
    then show False using h by simp
  qed
qed (rule pow2_strict_mono)

lemma pow2_le_iff [simp]: "pow2 a \<le> pow2 b \<longleftrightarrow> a \<le> b"
  using pow2_less_iff [of b a] by (simp only: linorder_not_less [symmetric])

lemma pow2_nat: "0 \<le> e \<Longrightarrow> pow2 e = 2 ^ nat e"
  by (simp add: pow2_def power_int_nonneg_exp)

lemma pow2_0 [simp]: "pow2 0 = 1"
  by (simp add: pow2_def)

lemma pow2_1 [simp]: "pow2 1 = 2"
  by (simp add: pow2_def)

lemma pow2_Suc: "pow2 (e + 1) = 2 * pow2 e"
  by (simp add: pow2_add)

lemma floor_log2_bounds:
  assumes "0 < x"
  shows "pow2 (floor_log2 x) \<le> x \<and> x < pow2 (floor_log2 x + 1)"
proof -
  obtain p q where pq: "quotient_of x = (p, q)" by (cases "quotient_of x")
  have q: "0 < q" using pq quotient_of_denom_pos by blast
  have x: "x = of_int p / of_int q" using pq quotient_of_div by blast
  have p: "0 < p" using assms q x by (simp add: zero_less_divide_iff)
  define bp where "bp = bitlen p"
  define bq where "bq = bitlen q"
  have bp1: "1 \<le> bp" using p by (simp add: bp_def bitlen_alt_def)
  have bq1: "1 \<le> bq" using q by (simp add: bq_def bitlen_alt_def)
  from bitlen_bounds[OF p] have "(2::int) ^ nat (bp - 1) \<le> p" "p < 2 ^ nat bp"
    by (simp_all add: bp_def)
  then have "(of_int ((2::int) ^ nat (bp - 1)) :: rat) \<le> of_int p" "(of_int p :: rat) < of_int (2 ^ nat bp)"
    by (simp_all only: of_int_le_iff of_int_less_iff)
  then have P: "pow2 (bp - 1) \<le> of_int p" "of_int p < pow2 bp"
    using bp1 by (simp_all add: pow2_nat)
  from bitlen_bounds[OF q] have "(2::int) ^ nat (bq - 1) \<le> q" "q < 2 ^ nat bq"
    by (simp_all add: bq_def)
  then have "(of_int ((2::int) ^ nat (bq - 1)) :: rat) \<le> of_int q" "(of_int q :: rat) < of_int (2 ^ nat bq)"
    by (simp_all only: of_int_le_iff of_int_less_iff)
  then have Q: "pow2 (bq - 1) \<le> of_int q" "of_int q < pow2 bq"
    using bq1 by (simp_all add: pow2_nat)
  have qpos: "(0::rat) < of_int q" using q by simp
  have up: "x < pow2 (bp - bq + 1)"
  proof -
    have "of_int p < pow2 bp" by (rule P)
    also have "pow2 bp = pow2 (bp - bq + 1) * pow2 (bq - 1)"
      by (simp add: pow2_add [symmetric])
    also have "\<dots> \<le> pow2 (bp - bq + 1) * of_int q"
      using Q(1) by (simp add: mult_left_mono less_imp_le)
    finally show ?thesis using qpos by (simp add: x pos_divide_less_eq)
  qed
  have lo: "pow2 (bp - bq - 1) < x"
  proof -
    have "pow2 (bp - bq - 1) * of_int q < pow2 (bp - bq - 1) * pow2 bq"
      using Q(2) by (simp add: mult_strict_left_mono)
    also have "\<dots> = pow2 (bp - 1)"
      by (simp add: pow2_add [symmetric])
    also have "\<dots> \<le> of_int p" by (rule P)
    finally show ?thesis using qpos by (simp add: x pos_less_divide_eq)
  qed
  show ?thesis
  proof (cases "pow2 (bp - bq) \<le> x")
    case True
    then have "floor_log2 x = bp - bq"
      by (simp add: floor_log2_def pq bp_def bq_def Let_def)
    then show ?thesis using True up by simp
  next
    case False
    then have "floor_log2 x = bp - bq - 1"
      by (simp add: floor_log2_def pq bp_def bq_def Let_def)
    then show ?thesis using False lo by (simp add: less_imp_le)
  qed
qed

lemma floor_log2_unique:
  assumes "pow2 e \<le> x" "x < pow2 (e + 1)"
  shows "floor_log2 x = e"
proof -
  have x: "0 < x" using assms(1) pow2_pos [of e] by linarith
  from floor_log2_bounds [OF x]
  have b: "pow2 (floor_log2 x) \<le> x" "x < pow2 (floor_log2 x + 1)" by simp_all
  have "pow2 e < pow2 (floor_log2 x + 1)" using assms(1) b(2) by linarith
  moreover have "pow2 (floor_log2 x) < pow2 (e + 1)" using assms(2) b(1) by linarith
  ultimately show ?thesis by simp
qed

lemma pow2_neq0 [simp]: "pow2 e \<noteq> 0"
  using pow2_pos [of e] by linarith

lemma pow2_int: "0 \<le> k \<Longrightarrow> pow2 k = of_int (2 ^ nat k)"
  by (simp add: pow2_nat)

lemma round_half_even_of_int [simp]: "round_half_even (of_int n) = n"
  by (simp add: round_half_even_def)

lemma round_half_even_range:
  "\<lfloor>y\<rfloor> \<le> round_half_even y \<and> round_half_even y \<le> \<lfloor>y\<rfloor> + 1"
  by (simp add: round_half_even_def Let_def)

lemma round_half_even_mono:
  assumes "y \<le> z"
  shows "round_half_even y \<le> round_half_even z"
proof -
  have fl: "\<lfloor>y\<rfloor> \<le> \<lfloor>z\<rfloor>" using assms by (rule floor_mono)
  show ?thesis
  proof (cases "\<lfloor>y\<rfloor> = \<lfloor>z\<rfloor>")
    case True
    then show ?thesis using assms
      by (auto simp add: round_half_even_def Let_def)
  next
    case False
    then have "\<lfloor>y\<rfloor> + 1 \<le> \<lfloor>z\<rfloor>" using fl by linarith
    then show ?thesis
      using round_half_even_range [of y] round_half_even_range [of z] by linarith
  qed
qed

lemma round_half_even_nonneg: "0 \<le> y \<Longrightarrow> 0 \<le> round_half_even y"
  using round_half_even_mono [of 0 y] round_half_even_of_int [of 0] by simp

lemmas quantum_binade = quantum_def

lemma quantum_pos [simp]: "0 < quantum x"
  by (simp add: quantum_def)

lemma binade_upper: "0 < x \<Longrightarrow> x < pow2 (binade x + 1)"
proof -
  assume x: "0 < x"
  have "x < pow2 (floor_log2 x + 1)" using floor_log2_bounds [OF x] by simp
  also have "\<dots> \<le> pow2 (binade x + 1)" by (simp add: binade_def)
  finally show ?thesis .
qed

lemma binade_mono:
  assumes "0 < x" "x \<le> y"
  shows "binade x \<le> binade y"
proof -
  have y: "0 < y" using assms by linarith
  have "pow2 (floor_log2 x) \<le> x" using floor_log2_bounds [OF assms(1)] by simp
  also have "x \<le> y" by fact
  also have "y < pow2 (floor_log2 y + 1)" using floor_log2_bounds [OF y] by simp
  finally have "floor_log2 x \<le> floor_log2 y" by simp
  then show ?thesis by (simp add: binade_def)
qed

lemma pow2_split: "pow2 (e + 1) = pow2 53 * pow2 (e - 52)"
  by (simp add: pow2_add [symmetric] add.commute)

lemma pow2_split': "pow2 e = pow2 52 * pow2 (e - 52)"
  by (simp add: pow2_add [symmetric])

lemma round_mag_0 [simp]: "round_mag 0 = 0"
  by (simp add: round_mag_def)

lemma round_mag_nonneg: "0 \<le> x \<Longrightarrow> 0 \<le> round_mag x"
  by (simp add: round_mag_def round_half_even_nonneg less_imp_le)

lemma round_mag_upper:
  assumes "0 < x"
  shows "round_mag x \<le> pow2 (binade x + 1)"
proof -
  let ?q = "quantum x"
  have "x < pow2 53 * ?q"
    using binade_upper [OF assms] by (simp add: pow2_split [symmetric] quantum_binade)
  then have "x / ?q \<le> pow2 53" by (simp add: pos_divide_le_eq less_imp_le)
  then have "x / ?q \<le> of_int (2 ^ nat 53)" by (simp add: pow2_int)
  then have "round_half_even (x / ?q) \<le> round_half_even (of_int (2 ^ nat 53))"
    by (rule round_half_even_mono)
  then have "round_half_even (x / ?q) \<le> 2 ^ nat 53" by (simp only: round_half_even_of_int)
  then have "(of_int (round_half_even (x / ?q)) :: rat) \<le> of_int (2 ^ nat 53)"
    by (simp only: of_int_le_iff)
  then have "of_int (round_half_even (x / ?q)) * ?q \<le> pow2 53 * ?q"
    by (simp add: pow2_int mult_right_mono less_imp_le)
  then show ?thesis using assms
    by (simp add: round_mag_def pow2_split [symmetric] quantum_binade)
qed

lemma round_mag_lower:
  assumes "0 < x" "- 1022 \<le> floor_log2 x"
  shows "pow2 (binade x) \<le> round_mag x"
proof -
  let ?q = "quantum x"
  have b: "binade x = floor_log2 x" using assms(2) by (simp add: binade_def)
  have "pow2 (binade x) \<le> x" using floor_log2_bounds [OF assms(1)] b by simp
  then have "pow2 52 * ?q \<le> x" by (simp add: pow2_split' [symmetric] quantum_binade)
  then have "pow2 52 \<le> x / ?q" by (simp add: pos_le_divide_eq)
  then have "of_int (2 ^ nat 52) \<le> x / ?q" by (simp add: pow2_int)
  then have "round_half_even (of_int (2 ^ nat 52)) \<le> round_half_even (x / ?q)"
    by (rule round_half_even_mono)
  then have "2 ^ nat 52 \<le> round_half_even (x / ?q)" by (simp only: round_half_even_of_int)
  then have "(of_int (2 ^ nat 52) :: rat) \<le> of_int (round_half_even (x / ?q))"
    by (simp only: of_int_le_iff)
  then have "pow2 52 * ?q \<le> of_int (round_half_even (x / ?q)) * ?q"
    by (simp add: pow2_int mult_right_mono less_imp_le)
  then show ?thesis using assms(1)
    by (simp add: round_mag_def pow2_split' [symmetric] quantum_binade)
qed

lemma round_mag_mono:
  assumes "0 \<le> x" "x \<le> y"
  shows "round_mag x \<le> round_mag y"
proof (cases "x = 0")
  case True
  then show ?thesis using assms round_mag_nonneg [of y] by simp
next
  case False
  then have x: "0 < x" using assms(1) by simp
  then have y: "0 < y" using assms(2) by linarith
  have le: "binade x \<le> binade y" using x assms(2) by (rule binade_mono)
  show ?thesis
  proof (cases "binade x = binade y")
    case True
    then have q: "quantum y = quantum x" by (simp add: quantum_binade)
    have "x / quantum x \<le> y / quantum x" using assms(2) by (simp add: divide_right_mono less_imp_le)
    then have "round_half_even (x / quantum x) \<le> round_half_even (y / quantum x)"
      by (rule round_half_even_mono)
    then have "(of_int (round_half_even (x / quantum x)) :: rat) \<le> of_int (round_half_even (y / quantum x))"
      by (simp only: of_int_le_iff)
    then have "of_int (round_half_even (x / quantum x)) * quantum x
        \<le> of_int (round_half_even (y / quantum x)) * quantum x"
      by (rule mult_right_mono) (simp add: less_imp_le)
    then show ?thesis using x y by (simp add: round_mag_def q)
  next
    case False
    then have lt: "binade x + 1 \<le> binade y" using le by linarith
    then have "- 1022 < binade y" by (simp add: binade_def)
    then have fy: "- 1022 \<le> floor_log2 y" by (simp add: binade_def)
    have "round_mag x \<le> pow2 (binade x + 1)" using x by (rule round_mag_upper)
    also have "\<dots> \<le> pow2 (binade y)" using lt by simp
    also have "\<dots> \<le> round_mag y" using y fy by (rule round_mag_lower)
    finally show ?thesis .
  qed
qed

lemma round_mag_repr:
  assumes m: "0 < m" "m < 2 ^ 53" and k: "- 1074 \<le> k"
  shows "round_mag (of_int m * pow2 k) = of_int m * pow2 k"
proof -
  let ?x = "of_int m * pow2 k :: rat"
  have x: "0 < ?x" using m(1) by simp
  have "(of_int m :: rat) < of_int (2 ^ 53)" using m(2) by (simp only: of_int_less_iff)
  then have "(of_int m :: rat) < pow2 53" by (simp add: pow2_int)
  then have "?x < pow2 53 * pow2 k" by (simp add: mult_strict_right_mono)
  then have "?x < pow2 (53 + k)" by (simp add: pow2_add)
  moreover have "pow2 (floor_log2 ?x) \<le> ?x" using floor_log2_bounds [OF x] by simp
  ultimately have "pow2 (floor_log2 ?x) < pow2 (53 + k)" by linarith
  then have "floor_log2 ?x - 52 \<le> k" by simp
  then have j: "0 \<le> k - (binade ?x - 52)" using k by (simp add: binade_def)
  define j where "j = k - (binade ?x - 52)"
  define q where "q = quantum ?x"
  have q0: "0 < q" by (simp add: q_def)
  have kj: "k = j + (binade ?x - 52)" by (simp add: j_def)
  have j0: "0 \<le> j" using j by (simp add: j_def)
  have pk: "pow2 k = pow2 j * q"
    unfolding q_def by (subst kj) (simp only: pow2_add quantum_binade)
  have xq: "?x / q = of_int m * pow2 j" using q0 by (simp add: pk)
  also have "\<dots> = of_int (m * 2 ^ nat j)" using j0 by (simp add: pow2_int)
  finally have "round_half_even (?x / q) = m * 2 ^ nat j"
    by (simp only: round_half_even_of_int)
  then have "round_mag ?x = of_int (m * 2 ^ nat j) * q"
    using x unfolding q_def by (simp add: round_mag_def)
  also have "\<dots> = (of_int m * pow2 j) * q" using j0 by (simp add: pow2_int)
  also have "\<dots> = ?x" by (simp add: pk)
  finally show ?thesis .
qed

lemma round_mag_idem:
  assumes "0 \<le> x"
  shows "round_mag (round_mag x) = round_mag x"
proof (cases "x = 0")
  case True
  then show ?thesis by simp
next
  case False
  then have x: "0 < x" using assms by simp
  define n where "n = round_half_even (x / quantum x)"
  have r: "round_mag x = of_int n * pow2 (binade x - 52)"
    using x by (simp add: round_mag_def n_def quantum_binade)
  have n0: "0 \<le> n" unfolding n_def using x by (simp add: round_half_even_nonneg less_imp_le)
  have "of_int n * pow2 (binade x - 52) \<le> pow2 53 * pow2 (binade x - 52)"
    using round_mag_upper [OF x] by (simp add: r pow2_split)
  then have "(of_int n :: rat) \<le> pow2 53" by simp
  then have "(of_int n :: rat) \<le> of_int (2 ^ 53)" by (simp add: pow2_int)
  then have n53: "n \<le> 2 ^ 53" by (simp only: of_int_le_iff)
  have k: "- 1074 \<le> binade x - 52" by (simp add: binade_def)
  consider "n = 0" | "0 < n" "n < 2 ^ 53" | "n = 2 ^ 53" using n0 n53 by linarith
  then show ?thesis
  proof cases
    case 1
    then show ?thesis by (simp add: r)
  next
    case 2
    then show ?thesis using k by (simp only: r round_mag_repr)
  next
    case 3
    have p: "pow2 (binade x - 51) = 2 * pow2 (binade x - 52)"
      using pow2_Suc [of "binade x - 52"] by simp
    have "of_int n * pow2 (binade x - 52) = of_int (2 ^ 52) * pow2 (binade x - 51)"
      by (simp add: 3 p)
    moreover have "round_mag (of_int (2 ^ 52) * pow2 (binade x - 51)) = of_int (2 ^ 52) * pow2 (binade x - 51)"
      by (rule round_mag_repr) (use k in simp_all)
    ultimately show ?thesis by (simp only: r)
  qed
qed

lemma pow2_nonneg [simp]: "0 \<le> pow2 e"
  using pow2_pos [of e] by linarith

lemma pow2_not_le0 [simp]: "\<not> pow2 e \<le> 0"
  using pow2_pos [of e] by linarith

lemma pow2_not_less0 [simp]: "\<not> pow2 e < 0"
  using pow2_pos [of e] by linarith

lemma round64_not_NaN [simp]: "round64 x \<noteq> NaN"
  by (simp add: round64_def Let_def)

lemma round64_0 [simp]: "round64 0 = Fin 0"
  by (simp add: round64_def)

lemma round64_minus: "round64 (- x) = js_neg (round64 x)"
  by (cases "x = 0") (auto simp add: round64_def Let_def)

lemma round_mag_pow2_1024: "round_mag (pow2 1024) = pow2 1024"
proof -
  have "round_mag (of_int (2 ^ 52) * pow2 972) = of_int (2 ^ 52) * pow2 972"
    by (rule round_mag_repr) simp_all
  moreover have "of_int (2 ^ 52) * pow2 972 = pow2 1024"
    using pow2_add [of 52 972] by (simp add: pow2_int)
  ultimately show ?thesis by simp
qed

lemma round64_overflow: "pow2 1024 \<le> x \<Longrightarrow> round64 x = PInf"
proof -
  assume h: "pow2 1024 \<le> x"
  have p: "0 < pow2 1024" by simp
  then have x: "0 < x" using h by linarith
  have "round_mag (pow2 1024) \<le> round_mag x"
    by (rule round_mag_mono) (use h p in simp_all)
  then have "pow2 1024 \<le> round_mag \<bar>x\<bar>" using x by (simp add: round_mag_pow2_1024)
  then show ?thesis using x by (simp add: round64_def Let_def)
qed

lemma round64_mono:
  assumes "x \<le> y"
  shows "js_le (round64 x) (round64 y)"
proof -
  consider "0 \<le> x" | "x < 0" "0 \<le> y" | "y < 0" using assms by linarith
  then show ?thesis
  proof cases
    case 1
    then have y: "0 \<le> y" using assms by linarith
    have "round_mag x \<le> round_mag y" using 1 assms by (rule round_mag_mono)
    then show ?thesis using 1 y by (auto simp add: round64_def Let_def)
  next
    case 2
    have "0 \<le> round_mag \<bar>x\<bar>" "0 \<le> round_mag \<bar>y\<bar>" by (simp_all add: round_mag_nonneg)
    then show ?thesis using 2 by (auto simp add: round64_def Let_def)
  next
    case 3
    then have x: "x < 0" using assms by linarith
    have "round_mag \<bar>y\<bar> \<le> round_mag \<bar>x\<bar>"
      by (rule round_mag_mono) (use 3 x assms in simp_all)
    then show ?thesis using 3 x by (auto simp add: round64_def Let_def)
  qed
qed

lemma round64_idem:
  assumes "round64 x = Fin y"
  shows "round64 y = Fin y"
proof -
  have i: "round_mag (round_mag \<bar>x\<bar>) = round_mag \<bar>x\<bar>" by (rule round_mag_idem) simp
  have n: "0 \<le> round_mag \<bar>x\<bar>" by (simp add: round_mag_nonneg)
  have lt: "\<not> pow2 1024 \<le> round_mag \<bar>x\<bar>" using assms by (auto simp add: round64_def Let_def split: if_splits)
  show ?thesis
  proof (cases "x < 0")
    case True
    then have y: "y = - round_mag \<bar>x\<bar>" using assms lt by (simp add: round64_def Let_def)
    show ?thesis
    proof (cases "round_mag \<bar>x\<bar> = 0")
      case True
      then show ?thesis by (simp add: y)
    next
      case False
      then have "y < 0" using n y by simp
      then show ?thesis using lt i by (simp add: round64_def Let_def y)
    qed
  next
    case False
    then have y: "y = round_mag \<bar>x\<bar>" using assms lt by (simp add: round64_def Let_def)
    then have "\<not> y < 0" using n by simp
    then show ?thesis using lt i n by (simp add: round64_def Let_def y)
  qed
qed

lemma round64_nonneg: "0 \<le> x \<Longrightarrow> js_le (Fin 0) (round64 x)"
  using round64_mono [of 0 x] by simp

lemma round64_nonpos: "x \<le> 0 \<Longrightarrow> js_le (round64 x) (Fin 0)"
  using round64_mono [of x 0] by simp

subsection \<open>Evaluating the rounding on numerals\<close>

lemma floor_log2_step_up: "2 \<le> x \<Longrightarrow> floor_log2 x = floor_log2 (x / 2) + 1"
proof -
  assume h: "2 \<le> x"
  then have x2: "0 < x / 2" by simp
  define e where "e = floor_log2 (x / 2)"
  from floor_log2_bounds [OF x2]
  have "pow2 e \<le> x / 2" "x / 2 < pow2 (e + 1)" by (simp_all add: e_def)
  then have "pow2 (e + 1) \<le> x" "x < pow2 (e + 1 + 1)"
    using pow2_Suc [of e] pow2_Suc [of "e + 1"] by linarith+
  then show ?thesis unfolding e_def [symmetric] by (rule floor_log2_unique)
qed

lemma floor_log2_step_down: "0 < x \<Longrightarrow> x < 1 \<Longrightarrow> floor_log2 x = floor_log2 (x * 2) - 1"
proof -
  assume h: "0 < x" "x < 1"
  then have x2: "0 < x * 2" by simp
  define e where "e = floor_log2 (x * 2) - 1"
  have e1: "floor_log2 (x * 2) = e + 1" by (simp add: e_def)
  from floor_log2_bounds [OF x2]
  have "pow2 (e + 1) \<le> x * 2" "x * 2 < pow2 (e + 1 + 1)" by (simp_all only: e1)
  then have "pow2 e \<le> x" "x < pow2 (e + 1)"
    using pow2_Suc [of e] pow2_Suc [of "e + 1"] by linarith+
  then show ?thesis unfolding e_def [symmetric] by (rule floor_log2_unique)
qed

lemma floor_log2_unit: "1 \<le> x \<Longrightarrow> x < 2 \<Longrightarrow> floor_log2 x = 0"
  by (rule floor_log2_unique) simp_all

lemma round_half_even_quotient:
  assumes "0 < q"
  shows "round_half_even (of_int p / of_int q) =
    (let f = p div q; r = 2 * (p mod q) in
      if r < q then f else if q < r then f + 1 else if even f then f else f + 1)"
proof -
  have q: "(0::rat) < of_int q" using assms by simp
  have f: "\<lfloor>(of_int p / of_int q :: rat)\<rfloor> = p div q" by (rule floor_divide_of_int_eq)
  have "(of_int p :: rat) = of_int (p div q * q + p mod q)" by simp
  also have "\<dots> = of_int (p div q) * of_int q + of_int (p mod q)" by (simp only: of_int_add of_int_mult)
  finally have "(of_int p / of_int q :: rat) = of_int (p div q) + of_int (p mod q) / of_int q"
    using q by (simp add: field_simps)
  then have d: "(of_int p / of_int q :: rat) - of_int (p div q) = of_int (p mod q) / of_int q"
    by simp
  have lt: "(of_int (p mod q) / of_int q :: rat) < 1 / 2 \<longleftrightarrow> 2 * (p mod q) < q"
  proof -
    have "(of_int (p mod q) / of_int q :: rat) < 1 / 2 \<longleftrightarrow> (of_int (2 * (p mod q)) :: rat) < of_int q"
      using q by (simp add: field_simps)
    then show ?thesis by (simp only: of_int_less_iff)
  qed
  have gt: "(1 / 2 :: rat) < of_int (p mod q) / of_int q \<longleftrightarrow> q < 2 * (p mod q)"
  proof -
    have "(1 / 2 :: rat) < of_int (p mod q) / of_int q \<longleftrightarrow> (of_int q :: rat) < of_int (2 * (p mod q))"
      using q by (simp add: field_simps)
    then show ?thesis by (simp only: of_int_less_iff)
  qed
  show ?thesis
    unfolding round_half_even_def f d Let_def lt gt ..
qed

lemma round_half_even_numeral_div:
  "round_half_even (numeral a / numeral b) =
    (let f = numeral a div numeral b; r = 2 * (numeral a mod numeral b :: int) in
      if r < numeral b then f else if numeral b < r then f + 1 else if even f then f else f + 1)"
proof -
  have "(0::int) < numeral b" by simp
  from round_half_even_quotient [OF this, of "numeral a"]
  show ?thesis by (simp only: of_int_numeral)
qed

lemma round_half_even_numeral: "round_half_even (numeral a) = numeral a"
  using round_half_even_of_int [of "numeral a"] by simp

lemma round_half_even_0: "round_half_even 0 = 0"
  using round_half_even_of_int [of 0] by simp

lemma round_half_even_1: "round_half_even 1 = 1"
  using round_half_even_of_int [of 1] by simp

lemma round_mag_of_int:
  assumes "0 \<le> n" "n \<le> 2 ^ 53"
  shows "round_mag (of_int n) = of_int n"
proof -
  consider "n = 0" | "0 < n" "n < 2 ^ 53" | "n = 2 ^ 53" using assms by linarith
  then show ?thesis
  proof cases
    case 1
    then show ?thesis by simp
  next
    case 2
    then have "round_mag (of_int n * pow2 0) = of_int n * pow2 0"
      by (intro round_mag_repr) simp_all
    then show ?thesis by simp
  next
    case 3
    have "round_mag (of_int (2 ^ 52) * pow2 1) = of_int (2 ^ 52) * pow2 1"
      by (rule round_mag_repr) simp_all
    then show ?thesis by (simp add: 3)
  qed
qed

lemma pow2_53_less: "(9007199254740992::rat) < pow2 1024"
proof -
  have "pow2 53 < pow2 1024" by simp
  then show ?thesis by (simp add: pow2_int)
qed

lemma round64_of_int:
  assumes "\<bar>n\<bar> \<le> 2 ^ 53"
  shows "round64 (of_int n) = Fin (of_int n)"
proof -
  have m: "round_mag \<bar>of_int n\<bar> = of_int \<bar>n\<bar>"
    using round_mag_of_int [of "\<bar>n\<bar>"] assms by simp
  have "(of_int \<bar>n\<bar> :: rat) \<le> of_int (2 ^ 53)" using assms by (simp only: of_int_le_iff)
  then have "(of_int \<bar>n\<bar> :: rat) < pow2 1024" using pow2_53_less by simp
  then show ?thesis using m by (simp add: round64_def Let_def abs_if split: if_splits)
qed

lemma round64_numeral:
  "numeral k \<le> (9007199254740992::int) \<Longrightarrow> round64 (numeral k) = Fin (numeral k)"
  using round64_of_int [of "numeral k"] by simp

lemma round64_neg_numeral:
  "numeral k \<le> (9007199254740992::int) \<Longrightarrow> round64 (- numeral k) = Fin (- numeral k)"
  using round64_of_int [of "- numeral k"] by simp

lemma round64_1: "round64 1 = Fin 1"
  using round64_of_int [of 1] by simp

lemma round64_small:
  assumes "0 < x" "x \<le> 18446744073709551616"
  shows "round64 x = Fin (round_mag x)"
proof -
  have "round_mag (of_int (2 ^ 52) * pow2 12) = of_int (2 ^ 52) * pow2 12"
    by (rule round_mag_repr) simp_all
  then have r: "round_mag 18446744073709551616 = 18446744073709551616"
    by (simp add: pow2_int)
  have "round_mag x \<le> round_mag 18446744073709551616"
    by (rule round_mag_mono) (use assms in simp_all)
  moreover have "(18446744073709551616::rat) < pow2 1024"
  proof -
    have "pow2 64 < pow2 1024" by simp
    then show ?thesis by (simp add: pow2_int)
  qed
  ultimately have "round_mag x < pow2 1024" using r by linarith
  then show ?thesis using assms(1) by (simp add: round64_def Let_def)
qed

lemma round64_frac:
  "numeral a / numeral b \<le> (18446744073709551616::rat) \<Longrightarrow>
     round64 (numeral a / numeral b) = Fin (round_mag (numeral a / numeral b))"
  by (rule round64_small) simp_all

lemma round64_neg_frac:
  "numeral a / numeral b \<le> (18446744073709551616::rat) \<Longrightarrow>
     round64 (- (numeral a / numeral b)) = Fin (- round_mag (numeral a / numeral b))"
proof -
  assume h: "numeral a / numeral b \<le> (18446744073709551616::rat)"
  have "round64 (numeral a / numeral b) = Fin (round_mag (numeral a / numeral b))"
    using h by (rule round64_frac)
  then show ?thesis by (simp add: round64_minus)
qed

lemma round_mag_frac:
  "round_mag (numeral a / numeral b) =
     (let q = quantum (numeral a / numeral b)
      in of_int (round_half_even (numeral a / numeral b / q)) * q)"
  by (simp add: round_mag_def Let_def)

lemma round64_inv:
  "round64 (1 / numeral b) = Fin (round_mag (1 / numeral b))"
  by (rule round64_small) simp_all

lemma round64_neg_inv:
  "round64 (- (1 / numeral b)) = Fin (- round_mag (1 / numeral b))"
  by (simp add: round64_minus round64_inv)

lemma round_mag_inv:
  "round_mag (1 / numeral b) =
     (let q = quantum (1 / numeral b) in of_int (round_half_even (1 / numeral b / q)) * q)"
  by (simp add: round_mag_def Let_def)

text \<open>
  The rules that evaluate a rounding on a numeral: integers up to \<open>2^53\<close> are exact, and
  a fraction up to \<open>2^64\<close> is rounded within its binade without looking at the overflow
  threshold.
\<close>

lemmas round64_eval = round64_0 round64_1 round64_numeral round64_neg_numeral round64_frac
  round64_neg_frac round64_inv round64_neg_inv round_mag_frac round_mag_inv
  quantum_def binade_def Let_def
  round_half_even_numeral_div round_half_even_numeral round_half_even_0 round_half_even_1
  floor_log2_step_up floor_log2_step_down floor_log2_unit pow2_def lit_def

section \<open>Properties of the arithmetic and of the categories\<close>

lemma nonneg_simps [simp]:
  "nonneg (Fin a) \<longleftrightarrow> 0 \<le> a" "nonneg PInf" "\<not> nonneg NInf" "\<not> nonneg NaN"
  by (simp_all add: nonneg_def)

lemma nonneg_round64: "0 \<le> x \<Longrightarrow> nonneg (round64 x)"
  unfolding nonneg_def by (rule round64_nonneg)

lemma is_double_round64 [simp]: "is_double (round64 x)"
  by (cases "round64 x") (simp_all add: is_double_def round64_idem)

lemma is_double_simps [simp]: "is_double PInf" "is_double NInf" "is_double NaN" "is_double (Fin 0)"
  by (simp_all add: is_double_def)

lemma js_le_refl [simp]: "v \<noteq> NaN \<Longrightarrow> js_le v v"
  by (cases v) simp_all

lemma js_le_PInf [simp]: "v \<noteq> NaN \<Longrightarrow> js_le v PInf"
  by (cases v) simp_all

lemma js_le_NInf [simp]: "v \<noteq> NaN \<Longrightarrow> js_le NInf v"
  by (cases v) simp_all

lemma js_le_trans: "js_le a b \<Longrightarrow> js_le b c \<Longrightarrow> js_le a c"
  by (cases a; cases b; cases c) simp_all

lemma js_le_not_NaN: "js_le a b \<Longrightarrow> a \<noteq> NaN \<and> b \<noteq> NaN"
  by (cases a; cases b) simp_all

lemma js_lt_imp_le: "js_lt a b \<Longrightarrow> js_le a b"
  by (cases a; cases b) simp_all

lemma not_js_lt_imp_le: "\<not> js_lt a b \<Longrightarrow> a \<noteq> NaN \<Longrightarrow> b \<noteq> NaN \<Longrightarrow> js_le b a"
  by (cases a; cases b) simp_all

lemma js_add_not_NaN_Fin [simp]: "js_add (Fin a) (Fin b) \<noteq> NaN"
  by simp

lemma js_add_double [simp]: "is_double (js_add a b)"
  by (cases a; cases b) simp_all

lemma js_mul_double [simp]: "is_double (js_mul a b)"
  by (cases a; cases b) (simp_all add: inf_of_sign_def)

lemma js_add_mono:
  assumes "js_le a a'" "js_le b b'" "js_add a b \<noteq> NaN" "js_add a' b' \<noteq> NaN"
  shows "js_le (js_add a b) (js_add a' b')"
  using assms
  by (cases a; cases a'; cases b; cases b') (simp_all add: round64_mono)

lemma js_mul_pos_mono:
  assumes "0 < c" "js_le a a'"
  shows "js_le (js_mul a (Fin c)) (js_mul a' (Fin c))"
  using assms
  by (cases a; cases a') (simp_all add: round64_mono inf_of_sign_def mult_right_mono less_imp_le)

lemma js_mul_mono_right:
  assumes "nonneg a" "0 < c" "c \<le> d"
  shows "js_le (js_mul a (Fin c)) (js_mul a (Fin d))"
  using assms
  by (cases a) (simp_all add: round64_mono inf_of_sign_def mult_left_mono)

lemma js_div_pos_mono:
  assumes "0 < c" "js_le a a'"
  shows "js_le (js_div a (Fin c)) (js_div a' (Fin c))"
  using assms
  by (cases a; cases a') (simp_all add: round64_mono divide_right_mono less_imp_le)

lemma nonneg_js_add: "nonneg a \<Longrightarrow> nonneg b \<Longrightarrow> nonneg (js_add a b)"
  by (cases a; cases b) (simp_all add: nonneg_round64)

lemma nonneg_js_mul: "nonneg a \<Longrightarrow> 0 < c \<Longrightarrow> nonneg (js_mul a (Fin c))"
  by (cases a) (simp_all add: nonneg_round64 inf_of_sign_def)

lemma js_mul_shrink:
  assumes "nonneg v" "is_double v" "0 < c" "c \<le> 1"
  shows "js_le (js_mul v (Fin c)) v"
proof (cases v)
  case (Fin a)
  then have a: "0 \<le> a" "round64 a = Fin a" using assms by (simp_all add: is_double_def)
  have "a * c \<le> a" using a(1) assms(4) by (simp add: mult_left_le)
  then have "js_le (round64 (a * c)) (round64 a)" by (rule round64_mono)
  then show ?thesis by (simp add: Fin a)
qed (use assms in \<open>simp_all add: inf_of_sign_def\<close>)

lemma js_mul_grow:
  assumes "nonneg v" "is_double v" "1 \<le> c"
  shows "js_le v (js_mul v (Fin c))"
proof (cases v)
  case (Fin a)
  then have a: "0 \<le> a" "round64 a = Fin a" using assms by (simp_all add: is_double_def)
  have "a \<le> a * c" using a(1) assms(3) by (simp add: mult_le_cancel_left1)
  then have "js_le (round64 a) (round64 (a * c))" by (rule round64_mono)
  then show ?thesis by (simp add: Fin a)
qed (use assms in \<open>simp_all add: inf_of_sign_def\<close>)

subsection \<open>The decimal literals of the source as doubles\<close>

lemma POINT_VALUES_min_eq: "POINT_VALUES_min = Fin (1080863910568919 / 72057594037927936)"
  unfolding POINT_VALUES_min_def by (simp add: round64_eval)

lemma POINT_VALUES_avg_eq: "POINT_VALUES_avg = Fin (1261007895663739 / 72057594037927936)"
  unfolding POINT_VALUES_avg_def by (simp add: round64_eval)

lemma POINT_VALUES_max_eq: "POINT_VALUES_max = Fin (5764607523034235 / 288230376151711744)"
  unfolding POINT_VALUES_max_def by (simp add: round64_eval)

lemma lit_0_5: "lit (5 / 10) = Fin (1 / 2)"
  by (simp add: round64_eval)

lemma lit_0_7: "lit (7 / 10) = Fin (3152519739159347 / 4503599627370496)"
  by (simp add: round64_eval)

lemma lit_0_8: "lit (8 / 10) = Fin (3602879701896397 / 4503599627370496)"
  by (simp add: round64_eval)

lemma lit_1_2: "lit (12 / 10) = Fin (5404319552844595 / 4503599627370496)"
  by (simp add: round64_eval)

lemma lit_1_5: "lit (15 / 10) = Fin (3 / 2)"
  by (simp add: round64_eval)

lemma lit_0_3: "lit (3 / 10) = Fin (5404319552844595 / 18014398509481984)"
  by (simp add: round64_eval)

lemma lit_9_99: "lit (999 / 100) = Fin (5623870034678907 / 562949953421312)"
  by (simp add: round64_eval)

lemma lit_6_99: "lit (699 / 100) = Fin (3935020174414971 / 562949953421312)"
  by (simp add: round64_eval)

lemma lit_10_99: "lit (1099 / 100) = Fin (6186819988100219 / 562949953421312)"
  by (simp add: round64_eval)

lemmas lit_eqs = POINT_VALUES_min_eq POINT_VALUES_avg_eq POINT_VALUES_max_eq
  lit_0_3 lit_0_5 lit_0_7 lit_0_8 lit_1_2 lit_1_5 lit_9_99 lit_6_99 lit_10_99

subsection \<open>The band of every category\<close>

lemma pos_nonneg: "js_lt (Fin 0) v \<Longrightarrow> nonneg v"
  by (cases v) simp_all

lemma ToNumber_js_or_not_NaN [simp]: "ToNumber (js_or v (Num (Fin 0))) \<noteq> NaN"
  by (cases v) (auto simp add: js_or_def)

lemma nonneg_not_NaN: "nonneg v \<Longrightarrow> v \<noteq> NaN"
  by (cases v) simp_all

lemma band_exact:
  "nonneg V \<Longrightarrow> band_ok \<lparr>val = V, minv = V, maxv = V, details = ds\<rparr>"
  by (simp add: band_ok_def nonneg_not_NaN)

lemma band_shrunk:
  assumes "js_lt (Fin 0) V" "is_double V" "0 < c" "c \<le> 1"
  shows "band_ok \<lparr>val = V, minv = js_mul V (Fin c), maxv = V, details = ds\<rparr>"
proof -
  have n: "nonneg V" using assms(1) by (rule pos_nonneg)
  show ?thesis
    using n assms by (simp add: band_ok_def nonneg_js_mul js_mul_shrink nonneg_not_NaN)
qed

lemma band_scaled:
  assumes "js_lt (Fin 0) V" "is_double V" "0 < c" "c \<le> 1" "1 \<le> d"
  shows "band_ok \<lparr>val = V, minv = js_mul V (Fin c), maxv = js_mul V (Fin d), details = ds\<rparr>"
proof -
  have n: "nonneg V" using assms(1) by (rule pos_nonneg)
  show ?thesis
    using n assms by (simp add: band_ok_def nonneg_js_mul js_mul_shrink js_mul_grow)
qed

lemma dashpass_band: "(k, b) \<in> set (dashpass safe) \<Longrightarrow> band_ok b"
  unfolding dashpass_def Let_def lit_eqs
  by (auto split: if_splits intro!: band_shrunk)

lemma priorityPass_band: "(k, b) \<in> set (priorityPass safe) \<Longrightarrow> band_ok b"
  unfolding priorityPass_def Let_def lit_eqs
  by (auto split: if_splits intro!: band_scaled)

lemma doorDashCredits_band: "(k, b) \<in> set (doorDashCredits safe) \<Longrightarrow> band_ok b"
  unfolding doorDashCredits_def Let_def lit_eqs
  by (auto split: if_splits intro!: band_shrunk)

lemma appleServices_band: "(k, b) \<in> set (appleServices safe) \<Longrightarrow> band_ok b"
  unfolding appleServices_def Let_def lit_eqs
  by (auto split: if_splits intro!: band_shrunk)

lemma globalEntry_band: "(k, b) \<in> set (globalEntry safe) \<Longrightarrow> band_ok b"
  unfolding globalEntry_def Let_def
  by (auto split: if_splits intro!: band_exact)

lemma nonneg_capped: "nonneg (capped v (Fin 300))" "nonneg (capped v (Fin 500))"
  by (cases "ToNumber (js_or v (Num (Fin 0)))";
      simp add: capped_def Math_max_def Math_min_def isNaN_def)+

lemma travelCredit_band: "(k, b) \<in> set (travelCredit safe) \<Longrightarrow> band_ok b"
  unfolding travelCredit_def Let_def
  by (auto intro!: band_exact nonneg_capped)

lemma diningCredit_band: "(k, b) \<in> set (diningCredit safe) \<Longrightarrow> band_ok b"
  unfolding diningCredit_def Let_def
  by (auto intro!: band_exact nonneg_capped)

lemma editCredit_band: "(k, b) \<in> set (editCredit safe) \<Longrightarrow> band_ok b"
  unfolding editCredit_def Let_def
  by (auto split: if_splits intro!: band_exact nonneg_capped)

lemma stubhubCredit_band: "(k, b) \<in> set (stubhubCredit safe) \<Longrightarrow> band_ok b"
  unfolding stubhubCredit_def Let_def
  by (auto split: if_splits intro!: band_exact nonneg_capped)

lemma is_double_highSpenderValue: "is_double (highSpenderValue safe q)"
  by (simp add: highSpenderValue_def Let_def)

lemma highSpender_band: "(k, b) \<in> set (highSpender safe q) \<Longrightarrow> band_ok b"
  unfolding highSpender_def Let_def lit_eqs
  by (auto split: if_splits intro!: band_scaled is_double_highSpenderValue)

lemma nonpos_simps [simp]:
  "nonpos (Fin a) \<longleftrightarrow> a \<le> 0" "nonpos NInf" "\<not> nonpos PInf" "\<not> nonpos NaN"
  by (simp_all add: nonpos_def)

lemma nonpos_round64: "x \<le> 0 \<Longrightarrow> nonpos (round64 x)"
  unfolding nonpos_def by (rule round64_nonpos)

lemma nonpos_js_add: "nonpos a \<Longrightarrow> nonpos b \<Longrightarrow> nonpos (js_add a b)"
  by (cases a; cases b) (simp_all add: nonpos_round64)

lemma nonpos_js_mul: "nonpos a \<Longrightarrow> 0 < c \<Longrightarrow> nonpos (js_mul a (Fin c))"
  by (cases a) (simp_all add: nonpos_round64 inf_of_sign_def mult_nonpos_nonneg less_imp_le)

lemma nonpos_not_pos: "nonpos v \<Longrightarrow> \<not> js_lt (Fin 0) v"
  by (cases v) simp_all

lemma nonneg_or_nonpos: "v \<noteq> NaN \<Longrightarrow> nonneg v \<or> nonpos v"
  by (cases v) auto

lemma nonneg_Math_min: "nonneg a \<Longrightarrow> nonneg b \<Longrightarrow> nonneg (Math_min a b)"
  by (cases a; cases b) (simp_all add: Math_min_def isNaN_def)

lemma nonpos_Math_min: "nonpos a \<Longrightarrow> nonneg b \<Longrightarrow> nonpos (Math_min a b)"
  by (cases a; cases b) (simp_all add: Math_min_def isNaN_def)

lemma lyft_band: "(k, b) \<in> set (lyft safe) \<Longrightarrow> band_ok b"
proof -
  assume h: "(k, b) \<in> set (lyft safe)"
  define r where "r = ToNumber (js_or (get safe ''lyftRides'') (Num (Fin 0)))"
  define credits where "credits = Math_min (js_mul r (Fin 10)) (Fin 120)"
  define bonus where "bonus = js_mul (js_mul r (Fin 20)) (Fin 4)"
  have r: "r \<noteq> NaN" by (simp add: r_def)
  from h have pos: "js_lt (Fin 0) (js_add credits (js_mul bonus POINT_VALUES_avg))"
    and b: "b = \<lparr>val = js_add credits (js_mul bonus POINT_VALUES_avg),
             minv = js_add credits (js_mul bonus POINT_VALUES_min),
             maxv = js_add credits (js_mul bonus POINT_VALUES_max),
             details = [Lit ''Lyft credits and bonus points'']\<rparr>"
    by (auto simp add: lyft_def Let_def r_def credits_def bonus_def split: if_splits)
  have "nonneg r"
  proof (rule ccontr)
    assume "\<not> nonneg r"
    then have np: "nonpos r" using nonneg_or_nonpos [OF r] by simp
    have "nonpos credits" unfolding credits_def
      by (rule nonpos_Math_min) (simp_all add: nonpos_js_mul np)
    moreover have "nonpos (js_mul bonus POINT_VALUES_avg)"
      unfolding bonus_def lit_eqs by (simp add: nonpos_js_mul np)
    ultimately have "nonpos (js_add credits (js_mul bonus POINT_VALUES_avg))"
      by (rule nonpos_js_add)
    then show False using pos nonpos_not_pos by blast
  qed
  then have c: "nonneg credits" and bn: "nonneg bonus"
    unfolding credits_def bonus_def by (simp_all add: nonneg_Math_min nonneg_js_mul)
  have nmin: "nonneg (js_add credits (js_mul bonus POINT_VALUES_min))"
    and navg: "nonneg (js_add credits (js_mul bonus POINT_VALUES_avg))"
    and nmax: "nonneg (js_add credits (js_mul bonus POINT_VALUES_max))"
    unfolding lit_eqs using c bn by (simp_all add: nonneg_js_add nonneg_js_mul)
  have cc: "js_le credits credits" using c by (simp add: nonneg_not_NaN)
  have "js_le (js_mul bonus POINT_VALUES_min) (js_mul bonus POINT_VALUES_avg)"
    unfolding lit_eqs by (rule js_mul_mono_right [OF bn]) simp_all
  then have le1: "js_le (js_add credits (js_mul bonus POINT_VALUES_min))
                    (js_add credits (js_mul bonus POINT_VALUES_avg))"
    using cc nmin navg by (intro js_add_mono) (simp_all add: nonneg_not_NaN)
  have "js_le (js_mul bonus POINT_VALUES_avg) (js_mul bonus POINT_VALUES_max)"
    unfolding lit_eqs by (rule js_mul_mono_right [OF bn]) simp_all
  then have le2: "js_le (js_add credits (js_mul bonus POINT_VALUES_avg))
                    (js_add credits (js_mul bonus POINT_VALUES_max))"
    using cc navg nmax by (intro js_add_mono) (simp_all add: nonneg_not_NaN)
  show ?thesis using nmin le1 le2 by (simp add: band_ok_def b)
qed

lemma peloton_band: "(k, b) \<in> set (peloton safe) \<Longrightarrow> band_ok b"
  unfolding peloton_def Let_def lit_0_8 lit_1_2
  by (auto split: if_splits intro!: band_scaled)

lemma points_band:
  assumes "(k, b) \<in> set (points (Fin t))" "0 \<le> t"
  shows "band_ok b"
proof -
  have n: "nonneg (Fin t)" using assms(2) by simp
  have 1: "js_le (js_mul (Fin t) POINT_VALUES_min) (js_mul (Fin t) POINT_VALUES_avg)"
    unfolding lit_eqs by (rule js_mul_mono_right [OF n]) simp_all
  have 2: "js_le (js_mul (Fin t) POINT_VALUES_avg) (js_mul (Fin t) POINT_VALUES_max)"
    unfolding lit_eqs by (rule js_mul_mono_right [OF n]) simp_all
  have 3: "nonneg (js_mul (Fin t) POINT_VALUES_min)"
    unfolding lit_eqs by (rule nonneg_js_mul [OF n]) simp
  show ?thesis using assms(1) 1 2 3 by (auto simp add: points_def Let_def band_ok_def)
qed

subsection \<open>The running sums of the aggregation\<close>

lemma acc_ok_step: "acc_ok a \<Longrightarrow> nonneg v \<Longrightarrow> acc_ok (js_add a v)"
proof -
  assume a: "acc_ok a" and v: "nonneg v"
  show ?thesis
  proof (cases a)
    case (Fin x)
    then have x: "round64 x = Fin x" using a by (simp add: acc_ok_def is_double_def)
    show ?thesis
    proof (cases v)
      case (Fin b)
      then have "x \<le> x + b" using v by simp
      then have "js_le (round64 x) (round64 (x + b))" by (rule round64_mono)
      then have "js_le (Fin x) (js_add a v)" by (simp add: x \<open>a = Fin x\<close> Fin)
      then have "js_add a v \<noteq> NaN \<and> js_add a v \<noteq> NInf"
        by (cases "js_add a v") simp_all
      then show ?thesis by (simp add: acc_ok_def)
    qed (use v \<open>a = Fin x\<close> in \<open>simp_all add: acc_ok_def\<close>)
  qed (use a v in \<open>cases v; simp_all add: acc_ok_def\<close>)+
qed

lemma acc_ok_foldl:
  "acc_ok a \<Longrightarrow> \<forall>v \<in> set vs. nonneg v \<Longrightarrow> acc_ok (foldl js_add a vs)"
  by (induction vs arbitrary: a) (simp_all add: acc_ok_step)

lemma guard_id: "v \<noteq> NaN \<Longrightarrow> (let w = num_or v (Fin 0) in if isNaN w then Fin 0 else w) = v"
  by (simp add: num_or_def isNaN_def Let_def)

lemma aggregate_foldl:
  assumes "\<forall>b \<in> set bs. f b \<noteq> NaN"
  shows "foldl (\<lambda>sum benefit. let v = num_or (f benefit) (Fin 0)
                           in js_add sum (if isNaN v then Fin 0 else v)) a bs
         = foldl js_add a (map f bs)"
  using assms
proof (induction bs arbitrary: a)
  case Nil
  then show ?case by simp
next
  case (Cons b bs)
  have "f b \<noteq> NaN" using Cons.prems by simp
  then have "(let v = num_or (f b) (Fin 0) in js_add a (if isNaN v then Fin 0 else v)) = js_add a (f b)"
    by (simp add: num_or_def isNaN_def Let_def)
  then show ?case using Cons by simp
qed

lemma aggregate_sum_js:
  assumes "\<forall>(k, b) \<in> set bd. f b \<noteq> NaN"
  shows "aggregate f bd = sum_js (map (f \<circ> snd) bd)"
proof -
  have "\<forall>b \<in> set (map snd bd). f b \<noteq> NaN" using assms by auto
  then show ?thesis unfolding aggregate_def sum_js_def
    by (simp add: aggregate_foldl)
qed

lemma round64_bounded:
  assumes "round64 t = Fin t" "\<bar>x\<bar> \<le> \<bar>t\<bar>"
  shows "\<exists>r. round64 x = Fin r"
proof -
  have abs: "round64 \<bar>t\<bar> = Fin \<bar>t\<bar>"
    using assms(1) round64_minus [of t] by (cases "t < 0") (simp_all add: abs_if)
  then have neg: "round64 (- \<bar>t\<bar>) = Fin (- \<bar>t\<bar>)" by (simp add: round64_minus)
  have "js_le (round64 x) (round64 \<bar>t\<bar>)" by (rule round64_mono) (use assms(2) in linarith)
  moreover have "js_le (round64 (- \<bar>t\<bar>)) (round64 x)" by (rule round64_mono) (use assms(2) in linarith)
  ultimately show ?thesis by (cases "round64 x") (simp_all add: abs neg)
qed

lemma js_mul_small_finite:
  assumes "round64 t = Fin t" "\<bar>c\<bar> \<le> 1"
  shows "\<exists>r. js_mul (Fin t) (Fin c) = Fin r"
proof -
  have "\<bar>t * c\<bar> \<le> \<bar>t\<bar>" using assms(2) by (simp add: abs_mult mult_left_le)
  then show ?thesis using round64_bounded [OF assms(1)] by simp
qed

lemma build_breakdown_others:
  "build_breakdown safe q =
     (let tp = totalPoints safe
      in if isNaN tp \<or> \<not> isFinite tp then Inl Invalid_points else Inr (points tp @ others safe q))"
  by (simp add: build_breakdown_def others_def Let_def cong: if_cong)

lemma others_band: "(k, b) \<in> set (others safe q) \<Longrightarrow> band_ok b"
  unfolding others_def
  by (auto dest: travelCredit_band diningCredit_band editCredit_band stubhubCredit_band
      dashpass_band doorDashCredits_band lyft_band peloton_band priorityPass_band
      globalEntry_band appleServices_band highSpender_band)

lemma band_ok_nonneg:
  assumes "band_ok b"
  shows "nonneg (minv b)" "nonneg (val b)" "nonneg (maxv b)"
proof -
  show 1: "nonneg (minv b)" using assms by (simp add: band_ok_def)
  have "js_le (Fin 0) (val b)"
    using assms js_le_trans [of "Fin 0" "minv b" "val b"] by (simp add: band_ok_def nonneg_def)
  then show 2: "nonneg (val b)" by (simp add: nonneg_def)
  have "js_le (Fin 0) (maxv b)"
    using assms 2 js_le_trans [of "Fin 0" "val b" "maxv b"] by (simp add: band_ok_def nonneg_def)
  then show "nonneg (maxv b)" by (simp add: nonneg_def)
qed

subsection \<open>The shape of a result\<close>

lemma isValidResults_True [simp]: "isValidResults r"
  by (simp add: isValidResults_def results_keys_def requiredKeys_def)

lemma js_add_Fin_not_NaN: "x \<noteq> NaN \<Longrightarrow> js_add x (Fin c) \<noteq> NaN"
  by (cases x) simp_all

lemma js_div_pos_not_NaN: "x \<noteq> NaN \<Longrightarrow> 0 < c \<Longrightarrow> js_div x (Fin c) \<noteq> NaN"
  by (cases x) simp_all

lemma js_mul_pos_not_NaN: "x \<noteq> NaN \<Longrightarrow> 0 < c \<Longrightarrow> js_mul x (Fin c) \<noteq> NaN"
  by (cases x) (simp_all add: inf_of_sign_def)

lemma roi_of_not_NaN [simp]: "roi_of v \<noteq> NaN"
proof (cases "js_lt (Fin 0) v")
  case True
  then have "v \<noteq> NaN" by (cases v) simp_all
  then have "js_sub v (Fin 795) \<noteq> NaN" by (simp add: js_sub_def js_add_Fin_not_NaN)
  then have "js_div (js_sub v (Fin 795)) (Fin 795) \<noteq> NaN" by (simp add: js_div_pos_not_NaN)
  then have "js_mul (js_div (js_sub v (Fin 795)) (Fin 795)) (Fin 100) \<noteq> NaN"
    by (simp add: js_mul_pos_not_NaN)
  then show ?thesis using True by (simp add: roi_of_def)
next
  case False
  then show ?thesis by (simp add: roi_of_def)
qed

lemma roi_of_NaN: "roi_of NaN = roi_of (Fin 0)"
  by (simp add: roi_of_def)

lemma assemble_eq:
  "assemble bd = Inr \<lparr>totalValue = (if isNaN (aggregate val bd) then Fin 0 else aggregate val bd),
     totalCost = Fin 795, roi = roi_of (aggregate val bd), minROI = roi_of (aggregate minv bd),
     maxROI = roi_of (aggregate maxv bd), breakdown = bd\<rparr>"
  by (simp add: assemble_def Let_def isNaN_def)

lemma aggregate_Nil [simp]: "aggregate f [] = Fin 0"
  by (simp add: aggregate_def)

lemma fallback_as_assembled:
  "fallback = \<lparr>totalValue = (if isNaN (aggregate val []) then Fin 0 else aggregate val []),
     totalCost = Fin 795, roi = roi_of (aggregate val []), minROI = roi_of (aggregate minv []),
     maxROI = roi_of (aggregate maxv []), breakdown = []\<rparr>"
  by (simp add: fallback_def roi_of_def isNaN_def)

text \<open>Every result, the fallback included, is the assembly of its own breakdown.\<close>

lemma calculateROI_assembled:
  "\<exists>bd. calculateROI inputs q =
     \<lparr>totalValue = (if isNaN (aggregate val bd) then Fin 0 else aggregate val bd),
      totalCost = Fin 795, roi = roi_of (aggregate val bd), minROI = roi_of (aggregate minv bd),
      maxROI = roi_of (aggregate maxv bd), breakdown = bd\<rparr>"
proof (cases "calculateROI_try inputs q")
  case (Inl e)
  then have "calculateROI inputs q = fallback" by (simp add: calculateROI_def)
  then show ?thesis using fallback_as_assembled by metis
next
  case (Inr r)
  then obtain bd where "assemble bd = Inr r"
    by (auto simp add: calculateROI_try_def split: sum.splits)
  then show ?thesis using Inr assemble_eq [of bd] by (auto simp add: calculateROI_def)
qed

text \<open>A result other than the fallback starts with the points entry of a finite total.\<close>

lemma calculateROI_breakdown:
  "breakdown (calculateROI inputs q) = [] \<or>
   (\<exists>safe t. validateInputs inputs = Inr safe \<and> totalPoints safe = Fin t \<and>
      breakdown (calculateROI inputs q) = points (Fin t) @ others safe q)"
proof (cases "calculateROI_try inputs q")
  case (Inl e)
  then show ?thesis by (simp add: calculateROI_def fallback_def)
next
  case (Inr r)
  then obtain safe bd where s: "validateInputs inputs = Inr safe"
    and b: "build_breakdown safe q = Inr bd" and a: "assemble bd = Inr r"
    by (auto simp add: calculateROI_try_def split: sum.splits)
  from b obtain t where t: "totalPoints safe = Fin t" and bd: "bd = points (Fin t) @ others safe q"
    by (cases "totalPoints safe")
       (auto simp add: build_breakdown_others Let_def isNaN_def isFinite_def split: if_splits)
  have "breakdown r = bd" using a by (auto simp add: assemble_eq)
  then show ?thesis using Inr s t bd by (simp add: calculateROI_def)
qed

lemma is_double_totalPoints: "is_double (totalPoints safe)"
  by (simp add: totalPoints_def)

lemma points_fields:
  assumes "round64 t = Fin t"
  shows "\<exists>e v m x. points (Fin t) = [(''points'', e)] \<and> val e = Fin v \<and> minv e = Fin m \<and> maxv e = Fin x"
proof -
  have "\<exists>r. js_mul (Fin t) POINT_VALUES_avg = Fin r"
    unfolding lit_eqs by (rule js_mul_small_finite [OF assms]) simp
  then obtain v where v: "js_mul (Fin t) POINT_VALUES_avg = Fin v" by blast
  have "\<exists>r. js_mul (Fin t) POINT_VALUES_min = Fin r"
    unfolding lit_eqs by (rule js_mul_small_finite [OF assms]) simp
  then obtain m where m: "js_mul (Fin t) POINT_VALUES_min = Fin m" by blast
  have "\<exists>r. js_mul (Fin t) POINT_VALUES_max = Fin r"
    unfolding lit_eqs by (rule js_mul_small_finite [OF assms]) simp
  then obtain x where x: "js_mul (Fin t) POINT_VALUES_max = Fin x" by blast
  show ?thesis by (simp add: points_def Let_def v m x)
qed

subsection \<open>Evaluating the engine on a concrete state\<close>

text \<open>
  A concrete state is the initial state with some fields set. The sanitized object is
  read through \<open>get_sanitized\<close>, so no list is ever rebuilt, and a result is evaluated in
  two steps: the breakdown first, then the sums and ratios over the evaluated entries.
\<close>

lemma map_of_setInputs:
  "map_of (setInputs k v ob) k' = (if k' = k then Some v else map_of ob k')"
  by (simp add: setInputs_def update_conv')

lemma get_sanitized:
  "get (map (\<lambda>(k, v). (k, sanitize v)) ob) k =
     (case map_of ob k of None \<Rightarrow> Undefined | Some v \<Rightarrow> sanitize v)"
  by (simp add: get_def map_of_map split: option.splits)

lemma map_of_initial_inputs:
  "map_of initial_inputs ''chaseTravel'' = Some (Num (Fin 0))"
  "map_of initial_inputs ''flightsHotels'' = Some (Num (Fin 0))"
  "map_of initial_inputs ''dining'' = Some (Num (Fin 0))"
  "map_of initial_inputs ''otherSpending'' = Some (Num (Fin 0))"
  "map_of initial_inputs ''travelCreditUsage'' = Some (Num (Fin 300))"
  "map_of initial_inputs ''editStaysValue'' = Some (Num (Fin 0))"
  "map_of initial_inputs ''stubhubSpending'' = Some (Num (Fin 0))"
  "map_of initial_inputs ''diningCredit'' = Some (Num (Fin 300))"
  "map_of initial_inputs ''dashpassUsage'' = Some (Num (Fin 12))"
  "map_of initial_inputs ''restaurantOrders'' = Some (Bool False)"
  "map_of initial_inputs ''nonRestaurantOrders'' = Some (Bool False)"
  "map_of initial_inputs ''lyftRides'' = Some (Num (Fin 0))"
  "map_of initial_inputs ''pelotonMembership'' = Some (Bool False)"
  "map_of initial_inputs ''pelotonEquipment'' = Some (Num (Fin 0))"
  "map_of initial_inputs ''appleServices'' = Some (Bool False)"
  "map_of initial_inputs ''priorityPassVisits'' = Some (Num (Fin 0))"
  "map_of initial_inputs ''globalEntryValue'' = Some (Bool False)"
  "map_of initial_inputs ''useShopsCredit'' = Some (Bool False)"
  "map_of initial_inputs ''useSouthwestCredit'' = Some (Bool False)"
  "map_of initial_inputs ''useIHGDiamond'' = Some (Bool False)"
  "map_of initial_inputs ''useSouthwestAList'' = Some (Bool False)"
  by (simp_all add: initial_inputs_def)

lemmas category_eval = build_breakdown_def totalPoints_def points_def capped_def travelCredit_def
  diningCredit_def editCredit_def stubhubCredit_def dashpass_def doorDashCredits_def lyft_def
  peloton_def priorityPass_def globalEntry_def appleServices_def highSpenderValue_def
  highSpender_def js_or_def isNaN_def isFinite_def Math_max_def Math_min_def
  POINT_VALUES_min_def POINT_VALUES_max_def POINT_VALUES_avg_def
  MULTIPLIERS_chaseTravel_def MULTIPLIERS_flightsHotels_def MULTIPLIERS_dining_def
  MULTIPLIERS_otherSpending_def get_sanitized map_of_setInputs map_of_initial_inputs
  zero_inputs_def round64_eval

lemmas total_eval = aggregate_def roi_of_def num_or_def isNaN_def js_sub_def keys_def lookup_def
  sum_js_def round64_eval

lemma calculateROI_eval:
  assumes "build_breakdown (map (\<lambda>(k, v). (k, sanitize v)) ob) q = Inr bd"
  shows "calculateROI (Obj ob) q =
     \<lparr>totalValue = (if isNaN (aggregate val bd) then Fin 0 else aggregate val bd),
      totalCost = Fin 795, roi = roi_of (aggregate val bd), minROI = roi_of (aggregate minv bd),
      maxROI = roi_of (aggregate maxv bd), breakdown = bd\<rparr>"
  using assms by (simp add: calculateROI_def calculateROI_try_def assemble_eq)

lemma totalAnnualSpending_Obj:
  "totalAnnualSpending (Obj ob) =
     (let tot = js_add (js_add (js_add (ToNumber (get ob ''chaseTravel''))
                  (ToNumber (get ob ''flightsHotels''))) (ToNumber (get ob ''dining'')))
                  (ToNumber (get ob ''otherSpending''))
      in if isNaN tot then Fin 0 else tot)"
  by (simp add: totalAnnualSpending_def totalAnnualSpending_try_def Let_def)

lemmas qualifies_eval = qualifiesForHighSpender_def totalAnnualSpending_Obj get_def
  map_of_setInputs map_of_initial_inputs zero_inputs_def isNaN_def round64_eval

lemma initial_breakdown:
  "build_breakdown (map (\<lambda>(k, v). (k, sanitize v)) initial_inputs) q = Inr
    [(''points'', \<lparr>val = Fin 0, minv = Fin 0, maxv = Fin 0,
        details = [ToLocaleString (Fin 0), Lit '' points earned'']\<rparr>),
     (''travelCredit'', \<lparr>val = Fin 300, minv = Fin 300, maxv = Fin 300,
        details = [Lit ''$'', ToStr (Num (Fin 300)), Lit '' travel credit used'']\<rparr>),
     (''diningCredit'', \<lparr>val = Fin 300, minv = Fin 300, maxv = Fin 300,
        details = [Lit ''$'', ToStr (Num (Fin 300)), Lit '' annual dining credit'']\<rparr>),
     (''dashpass'', \<lparr>val = Fin (1054475631502295 / 8796093022208),
        minv = Fin (1054475631502295 / 17592186044416),
        maxv = Fin (1054475631502295 / 8796093022208),
        details = [ToStr (Num (Fin 12)), Lit '' months of DashPass'']\<rparr>)]"
  by (simp add: category_eval)

lemmas initial_result = calculateROI_eval [OF initial_breakdown]

lemma negative_breakdown:
  "build_breakdown (map (\<lambda>(k, v). (k, sanitize v))
      (setInputs ''otherSpending'' (Num (Fin (- 1000))) zero_inputs)) q = Inr
    [(''points'', \<lparr>val = Fin (- (35 / 2)), minv = Fin (- 15), maxv = Fin (- 20),
        details = [ToLocaleString (Fin (- 1000)), Lit '' points earned'']\<rparr>),
     (''travelCredit'', \<lparr>val = Fin 0, minv = Fin 0, maxv = Fin 0,
        details = [Lit ''$'', ToStr (Num (Fin 0)), Lit '' travel credit used'']\<rparr>),
     (''diningCredit'', \<lparr>val = Fin 0, minv = Fin 0, maxv = Fin 0,
        details = [Lit ''$'', ToStr (Num (Fin 0)), Lit '' annual dining credit'']\<rparr>)]"
  by (simp add: category_eval)

lemmas negative_result = calculateROI_eval [OF negative_breakdown]

lemma overflow_breakdown:
  "build_breakdown (map (\<lambda>(k, v). (k, sanitize v))
      (setInputs ''lyftRides'' (Num (Fin (2 ^ 1023))) initial_inputs)) q = Inr
    [(''points'', \<lparr>val = Fin 0, minv = Fin 0, maxv = Fin 0,
        details = [ToLocaleString (Fin 0), Lit '' points earned'']\<rparr>),
     (''travelCredit'', \<lparr>val = Fin 300, minv = Fin 300, maxv = Fin 300,
        details = [Lit ''$'', ToStr (Num (Fin 300)), Lit '' travel credit used'']\<rparr>),
     (''diningCredit'', \<lparr>val = Fin 300, minv = Fin 300, maxv = Fin 300,
        details = [Lit ''$'', ToStr (Num (Fin 300)), Lit '' annual dining credit'']\<rparr>),
     (''dashpass'', \<lparr>val = Fin (1054475631502295 / 8796093022208),
        minv = Fin (1054475631502295 / 17592186044416),
        maxv = Fin (1054475631502295 / 8796093022208),
        details = [ToStr (Num (Fin 12)), Lit '' months of DashPass'']\<rparr>),
     (''lyft'', \<lparr>val = PInf, minv = PInf, maxv = PInf,
        details = [Lit ''Lyft credits and bonus points'']\<rparr>)]"
  by (simp add: category_eval round64_overflow inf_of_sign_def)

lemmas overflow_result = calculateROI_eval [OF overflow_breakdown]

subsection \<open>Sums, ratios and lookups over a built breakdown\<close>

lemma sum_js_Cons: "sum_js (x # xs) = foldl js_add (js_add (Fin 0) x) xs"
  by (simp add: sum_js_def)

lemma aggregate_points_others:
  assumes "f e = Fin p" "round64 p = Fin p" "\<forall>(k, b) \<in> set rest. nonneg (f b)"
  shows "aggregate f ((k0, e) # rest) = sum_js (map (f \<circ> snd) ((k0, e) # rest))"
    and "aggregate f ((k0, e) # rest) \<noteq> NaN"
proof -
  have nn: "\<forall>(k, b) \<in> set ((k0, e) # rest). f b \<noteq> NaN"
    using assms(1,3) by (auto dest: nonneg_not_NaN)
  then show eq: "aggregate f ((k0, e) # rest) = sum_js (map (f \<circ> snd) ((k0, e) # rest))"
    by (rule aggregate_sum_js)
  have a0: "acc_ok (js_add (Fin 0) (f e))"
    using assms(1,2) by (simp add: acc_ok_def is_double_def)
  have "\<forall>v \<in> set (map (f \<circ> snd) rest). nonneg v" using assms(3) by auto
  then have "acc_ok (foldl js_add (js_add (Fin 0) (f e)) (map (f \<circ> snd) rest))"
    using a0 by (intro acc_ok_foldl) simp_all
  then show "aggregate f ((k0, e) # rest) \<noteq> NaN"
    by (simp add: eq sum_js_Cons acc_ok_def)
qed

lemma others_nonneg:
  assumes "(k, b) \<in> set (others safe q)"
  shows "nonneg (val b)" "nonneg (minv b)" "nonneg (maxv b)"
  using band_ok_nonneg [OF others_band [OF assms]] by simp_all

lemma js_mul_is_double_Fin: "js_mul a b = Fin p \<Longrightarrow> round64 p = Fin p"
  using js_mul_double [of a b] by (simp add: is_double_def)

text \<open>The sums over a breakdown that the engine builds.\<close>

lemma built_sums:
  assumes "totalPoints safe = Fin t" "bd = points (Fin t) @ others safe q"
  shows "aggregate val bd = sum_js (map (val \<circ> snd) bd) \<and> aggregate val bd \<noteq> NaN"
    and "aggregate minv bd = sum_js (map (minv \<circ> snd) bd) \<and> aggregate minv bd \<noteq> NaN"
    and "aggregate maxv bd = sum_js (map (maxv \<circ> snd) bd) \<and> aggregate maxv bd \<noteq> NaN"
proof -
  have t: "round64 t = Fin t"
    using is_double_totalPoints [of safe] assms(1) by (simp add: is_double_def)
  obtain v where v: "js_mul (Fin t) POINT_VALUES_avg = Fin v"
    using points_fields [OF t] by (auto simp add: points_def Let_def)
  obtain m where m: "js_mul (Fin t) POINT_VALUES_min = Fin m"
    using points_fields [OF t] by (auto simp add: points_def Let_def)
  obtain x where x: "js_mul (Fin t) POINT_VALUES_max = Fin x"
    using points_fields [OF t] by (auto simp add: points_def Let_def)
  define e where "e = \<lparr>val = Fin v, minv = Fin m, maxv = Fin x,
     details = [ToLocaleString (Fin t), Lit '' points earned'']\<rparr>"
  have bd: "bd = (''points'', e) # others safe q"
    by (simp add: assms(2) points_def Let_def v m x e_def)
  have 1: "\<forall>(k, b) \<in> set (others safe q). nonneg (val b)" using others_nonneg by blast
  have 2: "\<forall>(k, b) \<in> set (others safe q). nonneg (minv b)" using others_nonneg by blast
  have 3: "\<forall>(k, b) \<in> set (others safe q). nonneg (maxv b)" using others_nonneg by blast
  show "aggregate val bd = sum_js (map (val \<circ> snd) bd) \<and> aggregate val bd \<noteq> NaN"
    unfolding bd using aggregate_points_others [of val e v, OF _ js_mul_is_double_Fin [OF v] 1]
    by (simp add: e_def)
  show "aggregate minv bd = sum_js (map (minv \<circ> snd) bd) \<and> aggregate minv bd \<noteq> NaN"
    unfolding bd using aggregate_points_others [of minv e m, OF _ js_mul_is_double_Fin [OF m] 2]
    by (simp add: e_def)
  show "aggregate maxv bd = sum_js (map (maxv \<circ> snd) bd) \<and> aggregate maxv bd \<noteq> NaN"
    unfolding bd using aggregate_points_others [of maxv e x, OF _ js_mul_is_double_Fin [OF x] 3]
    by (simp add: e_def)
qed

lemma empty_sums: "aggregate f [] = sum_js (map (f \<circ> snd) []) \<and> aggregate f [] \<noteq> NaN"
  by (simp add: sum_js_def)

lemma calculateROI_sums:
  "aggregate val (breakdown (calculateROI inputs q))
     = sum_js (map (val \<circ> snd) (breakdown (calculateROI inputs q)))
   \<and> aggregate val (breakdown (calculateROI inputs q)) \<noteq> NaN
   \<and> aggregate minv (breakdown (calculateROI inputs q))
     = sum_js (map (minv \<circ> snd) (breakdown (calculateROI inputs q)))
   \<and> aggregate maxv (breakdown (calculateROI inputs q))
     = sum_js (map (maxv \<circ> snd) (breakdown (calculateROI inputs q)))"
proof -
  let ?bd = "breakdown (calculateROI inputs q)"
  from calculateROI_breakdown [of inputs q]
  consider (empty) "?bd = []"
    | (built) safe t where "totalPoints safe = Fin t" "?bd = points (Fin t) @ others safe q"
    by blast
  then show ?thesis
  proof cases
    case empty
    then show ?thesis by (simp add: sum_js_def)
  next
    case built
    show ?thesis
      using built_sums(1) [OF built] built_sums(2) [OF built] built_sums(3) [OF built]
      by blast
  qed
qed

lemma calculateROI_fields:
  "totalValue (calculateROI inputs q) =
     (if isNaN (aggregate val (breakdown (calculateROI inputs q))) then Fin 0
      else aggregate val (breakdown (calculateROI inputs q)))"
  "roi (calculateROI inputs q) = roi_of (aggregate val (breakdown (calculateROI inputs q)))"
  "minROI (calculateROI inputs q) = roi_of (aggregate minv (breakdown (calculateROI inputs q)))"
  "maxROI (calculateROI inputs q) = roi_of (aggregate maxv (breakdown (calculateROI inputs q)))"
  using calculateROI_assembled [of inputs q] by auto

lemma sum_mono:
  assumes "\<forall>b \<in> set bs. nonneg (f b) \<and> js_le (f b) (g b)" "nonneg a" "js_le a a'"
  shows "js_le (foldl js_add a (map f bs)) (foldl js_add a' (map g bs))"
  using assms
proof (induction bs arbitrary: a a')
  case Nil
  then show ?case by simp
next
  case (Cons b bs)
  have fb: "nonneg (f b)" "js_le (f b) (g b)" using Cons.prems(1) by simp_all
  have gb: "nonneg (g b)"
    using fb js_le_trans [of "Fin 0" "f b" "g b"] by (simp add: nonneg_def)
  have a': "nonneg a'"
    using Cons.prems(2,3) js_le_trans [of "Fin 0" a a'] by (simp add: nonneg_def)
  have n1: "nonneg (js_add a (f b))" using Cons.prems(2) fb(1) by (rule nonneg_js_add)
  have n2: "nonneg (js_add a' (g b))" using a' gb by (rule nonneg_js_add)
  have le: "js_le (js_add a (f b)) (js_add a' (g b))"
    using Cons.prems(3) fb(2) n1 n2 by (intro js_add_mono) (simp_all add: nonneg_not_NaN)
  show ?case using Cons.IH [OF _ n1 le] Cons.prems(1) by simp
qed

lemma sum_js_mono:
  assumes "\<forall>(k, b) \<in> set bd. nonneg (f b) \<and> js_le (f b) (g b)"
  shows "js_le (sum_js (map (f \<circ> snd) bd)) (sum_js (map (g \<circ> snd) bd))"
proof -
  have "\<forall>b \<in> set (map snd bd). nonneg (f b) \<and> js_le (f b) (g b)" using assms by auto
  then have "js_le (foldl js_add (Fin 0) (map f (map snd bd))) (foldl js_add (Fin 0) (map g (map snd bd)))"
    by (intro sum_mono) simp_all
  then show ?thesis by (simp add: sum_js_def)
qed

lemma roi_ratio_mono:
  assumes "js_le x y"
  shows "js_le (roi_ratio x) (roi_ratio y)"
proof -
  have n: "x \<noteq> NaN" "y \<noteq> NaN" using assms js_le_not_NaN by blast+
  have "js_le (js_add x (Fin (- 795))) (js_add y (Fin (- 795)))"
    using assms n by (intro js_add_mono) (simp_all add: js_add_Fin_not_NaN)
  then have "js_le (js_div (js_sub x (Fin 795)) (Fin 795)) (js_div (js_sub y (Fin 795)) (Fin 795))"
    by (simp add: js_sub_def js_div_pos_mono)
  then show ?thesis unfolding roi_ratio_def by (intro js_mul_pos_mono) simp_all
qed

lemma round64_neg_1: "round64 (- 1) = Fin (- 1)"
  using round64_of_int [of "- 1"] by simp

lemma roi_ratio_0: "roi_ratio (Fin 0) = Fin (- 100)"
  by (simp add: roi_ratio_def js_sub_def round64_eval round64_neg_1)

lemma roi_of_ratio: "roi_of v = (if js_lt (Fin 0) v then roi_ratio v else Fin (- 100))"
  by (simp add: roi_of_def roi_ratio_def)

lemma js_lt_le_trans: "js_lt a b \<Longrightarrow> js_le b c \<Longrightarrow> js_lt a c"
  by (cases a; cases b; cases c) simp_all

lemma roi_of_mono:
  assumes "js_le x y"
  shows "js_le (roi_of x) (roi_of y)"
proof (cases "js_lt (Fin 0) x")
  case True
  then have "js_lt (Fin 0) y" using assms by (rule js_lt_le_trans)
  then show ?thesis using True assms by (simp add: roi_of_ratio roi_ratio_mono)
next
  case False
  show ?thesis
  proof (cases "js_lt (Fin 0) y")
    case True
    then have "js_le (Fin 0) y" by (rule js_lt_imp_le)
    then have "js_le (roi_ratio (Fin 0)) (roi_ratio y)" by (rule roi_ratio_mono)
    then show ?thesis using True False by (simp add: roi_of_ratio roi_ratio_0)
  next
    case n: False
    then show ?thesis using False by (simp add: roi_of_ratio)
  qed
qed

lemma built_bands:
  assumes "totalPoints safe = Fin t" "0 \<le> t" "(k, b) \<in> set (points (Fin t) @ others safe q)"
  shows "band_ok b"
  using assms points_band others_band by auto

lemma get_validated:
  assumes "validateInputs (Obj ob) = Inr safe"
  shows "get safe k = (case map_of ob k of None \<Rightarrow> Undefined | Some v \<Rightarrow> sanitize v)"
  using assms get_sanitized [of ob k] by auto

lemma category_keys:
  "(k, b) \<in> set (points tp) \<Longrightarrow> k = ''points''"
  "(k, b) \<in> set (travelCredit safe) \<Longrightarrow> k = ''travelCredit''"
  "(k, b) \<in> set (diningCredit safe) \<Longrightarrow> k = ''diningCredit''"
  "(k, b) \<in> set (editCredit safe) \<Longrightarrow> k = ''editCredit''"
  "(k, b) \<in> set (stubhubCredit safe) \<Longrightarrow> k = ''stubhubCredit''"
  "(k, b) \<in> set (dashpass safe) \<Longrightarrow> k = ''dashpass''"
  "(k, b) \<in> set (doorDashCredits safe) \<Longrightarrow> k = ''doorDashCredits''"
  "(k, b) \<in> set (lyft safe) \<Longrightarrow> k = ''lyft''"
  "(k, b) \<in> set (peloton safe) \<Longrightarrow> k = ''peloton''"
  "(k, b) \<in> set (priorityPass safe) \<Longrightarrow> k = ''priorityPass''"
  "(k, b) \<in> set (globalEntry safe) \<Longrightarrow> k = ''globalEntry''"
  "(k, b) \<in> set (appleServices safe) \<Longrightarrow> k = ''appleServices''"
  "(k, b) \<in> set (highSpender safe q) \<Longrightarrow> k = ''highSpender''"
  by (auto simp add: points_def travelCredit_def diningCredit_def editCredit_def stubhubCredit_def
      dashpass_def doorDashCredits_def lyft_def peloton_def priorityPass_def globalEntry_def
      appleServices_def highSpender_def Let_def split: if_splits)

lemma map_of_other_key:
  assumes "\<And>k' b. (k', b) \<in> set xs \<Longrightarrow> k' = name" "k \<noteq> name"
  shows "map_of xs k = None"
proof -
  have "k \<notin> fst ` set xs" using assms by auto
  then show ?thesis by (simp add: map_of_eq_None_iff)
qed

lemma map_of_category_None:
  "k \<noteq> ''points'' \<Longrightarrow> map_of (points tp) k = None"
  "k \<noteq> ''travelCredit'' \<Longrightarrow> map_of (travelCredit safe) k = None"
  "k \<noteq> ''diningCredit'' \<Longrightarrow> map_of (diningCredit safe) k = None"
  "k \<noteq> ''editCredit'' \<Longrightarrow> map_of (editCredit safe) k = None"
  "k \<noteq> ''stubhubCredit'' \<Longrightarrow> map_of (stubhubCredit safe) k = None"
  "k \<noteq> ''dashpass'' \<Longrightarrow> map_of (dashpass safe) k = None"
  "k \<noteq> ''doorDashCredits'' \<Longrightarrow> map_of (doorDashCredits safe) k = None"
  "k \<noteq> ''lyft'' \<Longrightarrow> map_of (lyft safe) k = None"
  "k \<noteq> ''peloton'' \<Longrightarrow> map_of (peloton safe) k = None"
  "k \<noteq> ''priorityPass'' \<Longrightarrow> map_of (priorityPass safe) k = None"
  "k \<noteq> ''globalEntry'' \<Longrightarrow> map_of (globalEntry safe) k = None"
  "k \<noteq> ''appleServices'' \<Longrightarrow> map_of (appleServices safe) k = None"
  "k \<noteq> ''highSpender'' \<Longrightarrow> map_of (highSpender safe q) k = None"
  by (rule map_of_other_key, erule category_keys, assumption)+

text \<open>Looking an entry up in a breakdown that the engine builds.\<close>

lemma lookup_built:
  "lookup (points tp @ others safe q) ''points'' = map_of (points tp) ''points''"
  "lookup (points tp @ others safe q) ''travelCredit'' = map_of (travelCredit safe) ''travelCredit''"
  "lookup (points tp @ others safe q) ''peloton'' = map_of (peloton safe) ''peloton''"
  "lookup (points tp @ others safe q) ''highSpender'' = map_of (highSpender safe q) ''highSpender''"
  unfolding lookup_def others_def
  by (simp_all add: map_add_def map_of_category_None split: option.splits)

lemma highSpender_not_qualified [simp]: "highSpender safe False = []"
  by (simp add: highSpender_def highSpenderValue_def)

lemma keys_lookup: "k \<in> set (keys bd) \<longleftrightarrow> lookup bd k \<noteq> None"
  by (simp add: keys_def lookup_def map_of_eq_None_iff)

lemma highSpender_only_qualified:
  assumes "''highSpender'' \<in> set (keys (breakdown (calculateROI inputs q)))"
  shows "q"
proof (rule ccontr)
  assume nq: "\<not> q"
  from calculateROI_breakdown [of inputs q]
  consider (empty) "breakdown (calculateROI inputs q) = []"
    | (built) safe t where "breakdown (calculateROI inputs q) = points (Fin t) @ others safe q"
    by blast
  then show False
  proof cases
    case empty
    then show ?thesis using assms by (simp add: keys_def)
  next
    case built
    then show ?thesis using assms nq by (simp add: keys_lookup lookup_built)
  qed
qed

lemma spend74999_breakdown_q:
  "qualifiesForHighSpender (Obj (setInputs ''useSouthwestAList'' (Bool True)
     (setInputs ''useIHGDiamond'' (Bool True) (setInputs ''useSouthwestCredit'' (Bool True)
     (setInputs ''useShopsCredit'' (Bool True)
     (setInputs ''chaseTravel'' (Num (Fin 74999)) initial_inputs)))))) = False"
  by (simp add: qualifies_eval)

lemma spend75000_q:
  "qualifiesForHighSpender (Obj (setInputs ''useShopsCredit'' (Bool True)
     (setInputs ''chaseTravel'' (Num (Fin 75000)) initial_inputs))) = True"
  by (simp add: qualifies_eval)

lemma spend75000_highSpender:
  "map_of (highSpender (map (\<lambda>(k, v). (k, sanitize v)) (setInputs ''useShopsCredit'' (Bool True)
     (setInputs ''chaseTravel'' (Num (Fin 75000)) initial_inputs))) True) ''highSpender''
   = Some \<lparr>val = Fin 250, minv = Fin 200, maxv = Fin 300,
       details = [Lit ''High spender benefits: $'', ToStr (Num (Fin 250)), Lit '' selected'']\<rparr>"
  by (simp add: category_eval)

lemma spend75000_points:
  "totalPoints (map (\<lambda>(k, v). (k, sanitize v)) (setInputs ''useShopsCredit'' (Bool True)
     (setInputs ''chaseTravel'' (Num (Fin 75000)) initial_inputs))) = Fin 600000"
  by (simp add: category_eval)

lemma breakdown_built:
  assumes "totalPoints (map (\<lambda>(k, v). (k, sanitize v)) ob) = Fin t"
  shows "breakdown (calculateROI (Obj ob) q)
    = points (Fin t) @ others (map (\<lambda>(k, v). (k, sanitize v)) ob) q"
proof -
  have "build_breakdown (map (\<lambda>(k, v). (k, sanitize v)) ob) q
    = Inr (points (Fin t) @ others (map (\<lambda>(k, v). (k, sanitize v)) ob) q)"
    using assms by (simp add: build_breakdown_others isNaN_def isFinite_def)
  from calculateROI_eval [OF this] show ?thesis by simp
qed

lemma infinite_q:
  "qualifiesForHighSpender (Obj (setInputs ''useShopsCredit'' (Bool True)
     (setInputs ''chaseTravel'' (Num PInf) initial_inputs))) = True"
  by (simp add: qualifies_eval)

lemma infinite_points:
  "totalPoints (map (\<lambda>(k, v). (k, sanitize v)) (setInputs ''useShopsCredit'' (Bool True)
     (setInputs ''chaseTravel'' (Num PInf) initial_inputs))) = Fin 0"
  by (simp add: category_eval)

lemma infinite_highSpender:
  "map_of (highSpender (map (\<lambda>(k, v). (k, sanitize v)) (setInputs ''useShopsCredit'' (Bool True)
     (setInputs ''chaseTravel'' (Num PInf) initial_inputs))) True) ''highSpender''
   = Some \<lparr>val = Fin 250, minv = Fin 200, maxv = Fin 300,
       details = [Lit ''High spender benefits: $'', ToStr (Num (Fin 250)), Lit '' selected'']\<rparr>"
  by (simp add: category_eval)

lemma infinite_sanitized:
  "sanitized_spending (Obj (setInputs ''useShopsCredit'' (Bool True)
     (setInputs ''chaseTravel'' (Num PInf) initial_inputs))) = Fin 0"
  by (simp add: sanitized_spending_def totalAnnualSpending_Obj get_sanitized map_of_setInputs
      map_of_initial_inputs isNaN_def isFinite_def)

lemma points_nonempty [simp]: "points tp \<noteq> []"
  by (simp add: points_def Let_def)

lemma breakdown_nonempty:
  assumes "breakdown (calculateROI (Obj ob) q) \<noteq> []"
  shows "\<exists>t. totalPoints (map (\<lambda>(k, v). (k, sanitize v)) ob) = Fin t \<and>
    breakdown (calculateROI (Obj ob) q)
      = points (Fin t) @ others (map (\<lambda>(k, v). (k, sanitize v)) ob) q"
  using calculateROI_breakdown [of "Obj ob" q] assms by auto

lemma travelCredit_capped:
  assumes "map_of ob ''travelCreditUsage'' = Some (Num (Fin 1000))"
  shows "map_option val (map_of (travelCredit (map (\<lambda>(k, v). (k, sanitize v)) ob)) ''travelCredit'')
    = Some (Fin 300)"
  using assms
  by (simp add: travelCredit_def capped_def get_sanitized js_or_def Math_max_def Math_min_def
      isNaN_def isFinite_def Let_def)

lemma peloton_capped:
  assumes "map_of ob ''pelotonEquipment'' = Some (Num (Fin 9000))"
  shows "map_option val (map_of (peloton (map (\<lambda>(k, v). (k, sanitize v)) ob)) ''peloton'')
    = Some (js_add (if ToBoolean (get (map (\<lambda>(k, v). (k, sanitize v)) ob) ''pelotonMembership'')
                    then js_add (Fin 0) (Fin 120) else Fin 0)
              (js_mul (js_mul (Fin 5000) (Fin 9)) POINT_VALUES_avg))"
proof -
  have e: "get (map (\<lambda>(k, v). (k, sanitize v)) ob) ''pelotonEquipment'' = Num (Fin 9000)"
    using assms by (simp add: get_sanitized isNaN_def isFinite_def)
  show ?thesis
    by (cases "ToBoolean (get (map (\<lambda>(k, v). (k, sanitize v)) ob) ''pelotonMembership'')")
       (simp_all add: peloton_def e Math_min_def isNaN_def POINT_VALUES_avg_def round64_eval)
qed

lemma caps_points:
  "totalPoints (map (\<lambda>(k, v). (k, sanitize v)) (setInputs ''pelotonEquipment'' (Num (Fin 9000))
     (setInputs ''travelCreditUsage'' (Num (Fin 1000)) initial_inputs))) = Fin 0"
  by (simp add: category_eval)

subsection \<open>The point total is monotone in each spending field\<close>

lemma totalPoints_weighted:
  "totalPoints safe = weighted (ToNumber (get safe ''chaseTravel''))
     (ToNumber (get safe ''flightsHotels'')) (ToNumber (get safe ''dining''))
     (ToNumber (get safe ''otherSpending''))"
  by (simp add: totalPoints_def weighted_def MULTIPLIERS_chaseTravel_def
      MULTIPLIERS_flightsHotels_def MULTIPLIERS_dining_def MULTIPLIERS_otherSpending_def)

lemma js_add_Fin_D: "js_add x y = Fin r \<Longrightarrow> (\<exists>a b. x = Fin a \<and> y = Fin b)"
  by (cases x; cases y) simp_all

lemma js_mul_Fin_D: "js_mul x (Fin c) = Fin r \<Longrightarrow> 0 < c \<Longrightarrow> (\<exists>a. x = Fin a)"
  by (cases x) (simp_all add: inf_of_sign_def)

lemma weighted_Fin_D:
  assumes "weighted a b c d = Fin t"
  shows "\<exists>a' b' c' d'. a = Fin a' \<and> b = Fin b' \<and> c = Fin c' \<and> d = Fin d'"
proof -
  from assms obtain s3 p4 where 1: "js_add (js_add (js_mul a (Fin 8)) (js_mul b (Fin 4))) (js_mul c (Fin 3)) = Fin s3"
    and p4: "js_mul d (Fin 1) = Fin p4"
    unfolding weighted_def by (blast dest: js_add_Fin_D)
  from 1 obtain s2 p3 where 2: "js_add (js_mul a (Fin 8)) (js_mul b (Fin 4)) = Fin s2"
    and p3: "js_mul c (Fin 3) = Fin p3"
    by (blast dest: js_add_Fin_D)
  from 2 obtain p1 p2 where p1: "js_mul a (Fin 8) = Fin p1" and p2: "js_mul b (Fin 4) = Fin p2"
    by (blast dest: js_add_Fin_D)
  show ?thesis
    using js_mul_Fin_D [OF p1] js_mul_Fin_D [OF p2] js_mul_Fin_D [OF p3] js_mul_Fin_D [OF p4]
    by auto
qed

lemma round64_mono_Fin:
  assumes "x \<le> y" "round64 x = Fin r" "round64 y = Fin s"
  shows "r \<le> s"
  using round64_mono [OF assms(1)] assms(2,3) by simp

lemma js_add_Fin_E:
  assumes "js_add x y = Fin r"
  obtains a b where "x = Fin a" "y = Fin b" "round64 (a + b) = Fin r"
  using assms by (cases x; cases y) simp_all

lemma weighted_mono:
  assumes le: "a \<le> a'" "b \<le> b'" "c \<le> c'" "d \<le> d'"
    and t: "weighted (Fin a) (Fin b) (Fin c) (Fin d) = Fin t"
    and t': "weighted (Fin a') (Fin b') (Fin c') (Fin d') = Fin t'"
  shows "t \<le> t'"
proof -
  have t0: "js_add (js_add (js_add (round64 (a * 8)) (round64 (b * 4))) (round64 (c * 3))) (round64 d) = Fin t"
    using t by (simp add: weighted_def)
  from t0 obtain s3 p4 where s3: "js_add (js_add (round64 (a * 8)) (round64 (b * 4))) (round64 (c * 3)) = Fin s3"
    and p4: "round64 d = Fin p4" and tt: "round64 (s3 + p4) = Fin t"
    by (elim js_add_Fin_E) simp
  from s3 obtain s2 p3 where s2: "js_add (round64 (a * 8)) (round64 (b * 4)) = Fin s2"
    and p3: "round64 (c * 3) = Fin p3" and e3: "round64 (s2 + p3) = Fin s3"
    by (elim js_add_Fin_E) simp
  from s2 obtain p1 p2 where p1: "round64 (a * 8) = Fin p1" and p2: "round64 (b * 4) = Fin p2"
    and e2: "round64 (p1 + p2) = Fin s2"
    by (elim js_add_Fin_E) simp
  have t0': "js_add (js_add (js_add (round64 (a' * 8)) (round64 (b' * 4))) (round64 (c' * 3))) (round64 d') = Fin t'"
    using t' by (simp add: weighted_def)
  from t0' obtain s3' p4' where s3': "js_add (js_add (round64 (a' * 8)) (round64 (b' * 4))) (round64 (c' * 3)) = Fin s3'"
    and p4': "round64 d' = Fin p4'" and tt': "round64 (s3' + p4') = Fin t'"
    by (elim js_add_Fin_E) simp
  from s3' obtain s2' p3' where s2': "js_add (round64 (a' * 8)) (round64 (b' * 4)) = Fin s2'"
    and p3': "round64 (c' * 3) = Fin p3'" and e3': "round64 (s2' + p3') = Fin s3'"
    by (elim js_add_Fin_E) simp
  from s2' obtain p1' p2' where p1': "round64 (a' * 8) = Fin p1'" and p2': "round64 (b' * 4) = Fin p2'"
    and e2': "round64 (p1' + p2') = Fin s2'"
    by (elim js_add_Fin_E) simp
  have "p1 \<le> p1'" by (rule round64_mono_Fin [OF _ p1 p1']) (use le in simp)
  moreover have "p2 \<le> p2'" by (rule round64_mono_Fin [OF _ p2 p2']) (use le in simp)
  ultimately have "s2 \<le> s2'" by (intro round64_mono_Fin [OF _ e2 e2']) simp
  moreover have "p3 \<le> p3'" by (rule round64_mono_Fin [OF _ p3 p3']) (use le in simp)
  ultimately have "s3 \<le> s3'" by (intro round64_mono_Fin [OF _ e3 e3']) simp
  moreover have "p4 \<le> p4'" by (rule round64_mono_Fin [OF _ p4 p4']) (use le in simp)
  ultimately show ?thesis by (intro round64_mono_Fin [OF _ tt tt']) simp
qed

lemma points_value:
  "map_option val (map_of (points tp) ''points'') = Some (js_mul tp POINT_VALUES_avg)"
  by (simp add: points_def Let_def)

text \<open>The point total of a state and of the state with one field set to a larger number.\<close>

lemma totalPoints_mono:
  assumes "map_of ob k = Some (Num (Fin a))" "a \<le> b"
    and "totalPoints (map (\<lambda>(k, v). (k, sanitize v)) ob) = Fin t"
    and "totalPoints (map (\<lambda>(k, v). (k, sanitize v)) (setInputs k (Num (Fin b)) ob)) = Fin t'"
  shows "t \<le> t'"
proof -
  let ?g = "\<lambda>name. ToNumber (get (map (\<lambda>(k, v). (k, sanitize v)) ob) name)"
  let ?g' = "\<lambda>name. ToNumber (get (map (\<lambda>(k, v). (k, sanitize v)) (setInputs k (Num (Fin b)) ob)) name)"
  have g': "?g' name = (if name = k then Fin b else ?g name)" for name
    by (simp add: get_sanitized map_of_setInputs isNaN_def isFinite_def)
  have gk: "?g k = Fin a"
    using assms(1) by (simp add: get_sanitized isNaN_def isFinite_def)
  obtain x1 x2 x3 x4 where x: "?g ''chaseTravel'' = Fin x1" "?g ''flightsHotels'' = Fin x2"
    "?g ''dining'' = Fin x3" "?g ''otherSpending'' = Fin x4"
    using weighted_Fin_D [of "?g ''chaseTravel''" "?g ''flightsHotels''" "?g ''dining''"
        "?g ''otherSpending''" t] assms(3)
    by (auto simp add: totalPoints_weighted)
  obtain y1 y2 y3 y4 where y: "?g' ''chaseTravel'' = Fin y1" "?g' ''flightsHotels'' = Fin y2"
    "?g' ''dining'' = Fin y3" "?g' ''otherSpending'' = Fin y4"
    using weighted_Fin_D [of "?g' ''chaseTravel''" "?g' ''flightsHotels''" "?g' ''dining''"
        "?g' ''otherSpending''" t'] assms(4)
    by (auto simp add: totalPoints_weighted)
  have le: "?g name = Fin u \<Longrightarrow> ?g' name = Fin w \<Longrightarrow> u \<le> w" for name u w
    using g' [of name] gk assms(2) by (auto split: if_splits)
  have "x1 \<le> y1" "x2 \<le> y2" "x3 \<le> y3" "x4 \<le> y4"
    using le x y by blast+
  moreover have "weighted (Fin x1) (Fin x2) (Fin x3) (Fin x4) = Fin t"
    using assms(3) by (simp add: totalPoints_weighted x)
  moreover have "weighted (Fin y1) (Fin y2) (Fin y3) (Fin y4) = Fin t'"
    using assms(4) by (simp add: totalPoints_weighted y)
  ultimately show ?thesis by (rule weighted_mono)
qed

lemma points_0: "points (Fin 0) = [(''points'', \<lparr>val = Fin 0, minv = Fin 0, maxv = Fin 0,
      details = [ToLocaleString (Fin 0), Lit '' points earned'']\<rparr>)]"
  by (simp add: points_def POINT_VALUES_avg_def POINT_VALUES_min_def POINT_VALUES_max_def round64_eval)

lemma points_8000: "points (Fin 8000) = [(''points'', \<lparr>val = Fin 140, minv = Fin 120, maxv = Fin 160,
      details = [ToLocaleString (Fin 8000), Lit '' points earned'']\<rparr>)]"
  by (simp add: points_def POINT_VALUES_avg_def POINT_VALUES_min_def POINT_VALUES_max_def round64_eval)

lemma travel1000_points:
  "totalPoints (map (\<lambda>(k, v). (k, sanitize v))
     (setInputs ''chaseTravel'' (Num (Fin 1000)) initial_inputs)) = Fin 8000"
  by (simp add: category_eval)

lemma travelInf_points:
  "totalPoints (map (\<lambda>(k, v). (k, sanitize v))
     (setInputs ''chaseTravel'' (Num PInf) initial_inputs)) = Fin 0"
  by (simp add: category_eval)

lemma initial_points:
  "totalPoints (map (\<lambda>(k, v). (k, sanitize v)) initial_inputs) = Fin 0"
  by (simp add: category_eval)

lemma lookup_points_1000:
  "lookup (breakdown (compute (Obj (setInputs ''chaseTravel'' (Num (Fin 1000)) initial_inputs)))) ''points''
     = Some \<lparr>val = Fin 140, minv = Fin 120, maxv = Fin 160,
         details = [ToLocaleString (Fin 8000), Lit '' points earned'']\<rparr>"
  unfolding compute_def breakdown_built [OF travel1000_points]
  by (simp only: lookup_built) (simp add: points_8000)

lemma lookup_points_Inf:
  "lookup (breakdown (compute (Obj (setInputs ''chaseTravel'' (Num PInf) initial_inputs)))) ''points''
     = Some \<lparr>val = Fin 0, minv = Fin 0, maxv = Fin 0,
         details = [ToLocaleString (Fin 0), Lit '' points earned'']\<rparr>"
  unfolding compute_def breakdown_built [OF travelInf_points]
  by (simp only: lookup_built) (simp add: points_0)

lemma lookup_points_initial:
  "lookup (breakdown (compute (Obj initial_inputs))) ''points''
     = Some \<lparr>val = Fin 0, minv = Fin 0, maxv = Fin 0,
         details = [ToLocaleString (Fin 0), Lit '' points earned'']\<rparr>"
  unfolding compute_def breakdown_built [OF initial_points]
  by (simp only: lookup_built) (simp add: points_0)

section \<open>The claims\<close>

text \<open>
  The claims are about \<open>compute\<close>, the engine run on a state. Where a statement holds
  for \<open>calculateROI\<close> with either value of the qualification flag it is stated so, and
  \<open>compute\<close> is the instance with the flag computed from the same state.
\<close>

subsection \<open>C1: the default profile\<close>

text \<open>
  Claim C1 says that the default profile yields exactly the three entries \<open>points\<close>,
  \<open>travelCredit\<close> and \<open>diningCredit\<close> and a total of 600. The default profile has
  \<^verbatim>\<open>dashpassUsage = 12\<close>, which the engine prices at \<^verbatim>\<open>12 * 9.99\<close>: the breakdown has a
  fourth entry \<open>dashpass\<close> and the total is not 600.
\<close>

theorem C1_counterexample:
  "''dashpass'' \<in> set (keys (breakdown (compute (Obj initial_inputs))))
   \<and> totalValue (compute (Obj initial_inputs)) \<noteq> Fin 600"
  unfolding compute_def initial_result
  by (simp add: total_eval)

text \<open>
  Claim C1, amended. For the default profile the breakdown has exactly the four keys
  \<open>points\<close> (value 0), \<open>travelCredit\<close> (300), \<open>diningCredit\<close> (300) and \<open>dashpass\<close>
  (value \<^verbatim>\<open>12 * 9.99\<close>, the double \<open>119.88\<close>); \<open>totalValue\<close> is the double \<open>719.88\<close> and
  \<open>roi\<close> is \<^verbatim>\<open>(719.88 - 795) / 795 * 100\<close>.
\<close>

theorem C1_default_profile:
  "keys (breakdown (compute (Obj initial_inputs)))
     = [''points'', ''travelCredit'', ''diningCredit'', ''dashpass'']
   \<and> map (val \<circ> snd) (breakdown (compute (Obj initial_inputs)))
     = [Fin 0, Fin 300, Fin 300, js_mul (Fin 12) (lit (999 / 100))]
   \<and> js_mul (Fin 12) (lit (999 / 100)) = lit (11988 / 100)
   \<and> totalValue (compute (Obj initial_inputs)) = lit (71988 / 100)
   \<and> roi (compute (Obj initial_inputs))
     = js_mul (js_div (js_sub (lit (71988 / 100)) (Fin 795)) (Fin 795)) (Fin 100)"
  unfolding compute_def initial_result
  by (simp add: total_eval)

subsection \<open>C2: finiteness of the outputs\<close>

text \<open>
  Claim C2 says that every numeric output is finite and that a non-finite intermediate
  collapses the result to the fallback. Only \<open>totalPoints\<close> is guarded by \<^verbatim>\<open>isFinite\<close>.
  With \<^verbatim>\<open>lyftRides = 2^1023\<close> (a finite double, about \<open>8.99e307\<close>) the products
  \<^verbatim>\<open>lyftRides * 10\<close> and \<^verbatim>\<open>lyftRides * 20 * 4\<close> overflow: the \<open>lyft\<close> entry, \<open>totalValue\<close>,
  \<open>roi\<close>, \<open>minROI\<close> and \<open>maxROI\<close> are all \<^verbatim>\<open>Infinity\<close>, and the result is not the fallback.
\<close>

theorem C2_lyft_overflow:
  "totalValue (compute (Obj (setInputs ''lyftRides'' (Num (Fin (2 ^ 1023))) initial_inputs))) = PInf
   \<and> roi (compute (Obj (setInputs ''lyftRides'' (Num (Fin (2 ^ 1023))) initial_inputs))) = PInf
   \<and> minROI (compute (Obj (setInputs ''lyftRides'' (Num (Fin (2 ^ 1023))) initial_inputs))) = PInf
   \<and> maxROI (compute (Obj (setInputs ''lyftRides'' (Num (Fin (2 ^ 1023))) initial_inputs))) = PInf
   \<and> map_option val (lookup (breakdown (compute (Obj (setInputs ''lyftRides'' (Num (Fin (2 ^ 1023))) initial_inputs)))) ''lyft'')
      = Some PInf
   \<and> \<not> isFinite PInf
   \<and> compute (Obj (setInputs ''lyftRides'' (Num (Fin (2 ^ 1023))) initial_inputs)) \<noteq> fallback"
  unfolding compute_def overflow_result
  by (simp add: total_eval isFinite_def fallback_def inf_of_sign_def)

subsection \<open>C3: the high-spender gate\<close>

text \<open>
  Claim C3 ties the \<open>highSpender\<close> entry to the sum of the four spending fields after
  sanitization. The engine reads \<^verbatim>\<open>qualifiesForHighSpender\<close>, which is computed from the raw
  state: with \<^verbatim>\<open>chaseTravel = Infinity\<close> (what \<^verbatim>\<open>Number("Infinity")\<close> stores) and
  \<^verbatim>\<open>useShopsCredit\<close> set, the raw sum is \<^verbatim>\<open>Infinity\<close> and the entry is present, while the
  sanitized sum is 0.
\<close>

theorem C3_counterexample:
  "''highSpender'' \<in> set (keys (breakdown (compute (Obj (setInputs ''useShopsCredit'' (Bool True)
       (setInputs ''chaseTravel'' (Num PInf) initial_inputs))))))
   \<and> sanitized_spending (Obj (setInputs ''useShopsCredit'' (Bool True)
       (setInputs ''chaseTravel'' (Num PInf) initial_inputs))) = Fin 0
   \<and> \<not> js_le (Fin 75000) (Fin 0)"
  unfolding compute_def infinite_q breakdown_built [OF infinite_points] infinite_sanitized
  by (simp add: keys_lookup lookup_built infinite_highSpender)

text \<open>
  Claim C3, amended. A profile only contributes the \<open>highSpender\<close> category when the sum
  \<^verbatim>\<open>chaseTravel + flightsHotels + dining + otherSpending\<close> of the raw state, as
  \<^verbatim>\<open>totalAnnualSpending\<close> computes it (a NaN sum read as 0), is at least 75000. With total
  spend 74999 and all four toggles set there is no \<open>highSpender\<close> key; with total spend
  75000 and only \<^verbatim>\<open>useShopsCredit\<close> set the entry has value 250, min 200 and max 300.
\<close>

theorem C3_high_spender_gate:
  "(''highSpender'' \<in> set (keys (breakdown (compute inputs)))
      \<longrightarrow> js_le (Fin 75000) (totalAnnualSpending inputs))
   \<and> ''highSpender'' \<notin> set (keys (breakdown (compute (Obj
        (setInputs ''useSouthwestAList'' (Bool True)
        (setInputs ''useIHGDiamond'' (Bool True) (setInputs ''useSouthwestCredit'' (Bool True)
        (setInputs ''useShopsCredit'' (Bool True)
        (setInputs ''chaseTravel'' (Num (Fin 74999)) initial_inputs)))))))))
   \<and> map_option (\<lambda>b. (val b, minv b, maxv b)) (lookup (breakdown (compute (Obj
        (setInputs ''useShopsCredit'' (Bool True)
        (setInputs ''chaseTravel'' (Num (Fin 75000)) initial_inputs))))) ''highSpender'')
      = Some (Fin 250, Fin 200, Fin 300)"
proof -
  have gate: "''highSpender'' \<in> set (keys (breakdown (compute i)))
      \<longrightarrow> js_le (Fin 75000) (totalAnnualSpending i)" for i
    using highSpender_only_qualified [of i "qualifiesForHighSpender i"]
    by (auto simp add: compute_def qualifiesForHighSpender_def)
  have 1: "''highSpender'' \<notin> set (keys (breakdown (compute (Obj
        (setInputs ''useSouthwestAList'' (Bool True)
        (setInputs ''useIHGDiamond'' (Bool True) (setInputs ''useSouthwestCredit'' (Bool True)
        (setInputs ''useShopsCredit'' (Bool True)
        (setInputs ''chaseTravel'' (Num (Fin 74999)) initial_inputs)))))))))"
    using highSpender_only_qualified spend74999_breakdown_q unfolding compute_def by metis
  have 2: "map_option (\<lambda>b. (val b, minv b, maxv b)) (lookup (breakdown (compute (Obj
        (setInputs ''useShopsCredit'' (Bool True)
        (setInputs ''chaseTravel'' (Num (Fin 75000)) initial_inputs))))) ''highSpender'')
      = Some (Fin 250, Fin 200, Fin 300)"
    unfolding compute_def spend75000_q breakdown_built [OF spend75000_points]
    by (simp add: lookup_built spend75000_highSpender)
  show ?thesis using gate 1 2 by blast
qed

text \<open>Witness for C3: the state with \<^verbatim>\<open>chaseTravel = 75000\<close> and \<^verbatim>\<open>useShopsCredit\<close> set.\<close>

theorem C3_witness:
  "''highSpender'' \<in> set (keys (breakdown (compute (Obj (setInputs ''useShopsCredit'' (Bool True)
       (setInputs ''chaseTravel'' (Num (Fin 75000)) initial_inputs))))))
   \<and> js_le (Fin 75000) (totalAnnualSpending (Obj (setInputs ''useShopsCredit'' (Bool True)
       (setInputs ''chaseTravel'' (Num (Fin 75000)) initial_inputs))))"
proof -
  have "''highSpender'' \<in> set (keys (breakdown (compute (Obj (setInputs ''useShopsCredit'' (Bool True)
       (setInputs ''chaseTravel'' (Num (Fin 75000)) initial_inputs))))))"
    unfolding compute_def spend75000_q breakdown_built [OF spend75000_points]
    by (simp add: keys_lookup lookup_built spend75000_highSpender)
  then show ?thesis
    using C3_high_spender_gate [of "Obj (setInputs ''useShopsCredit'' (Bool True)
       (setInputs ''chaseTravel'' (Num (Fin 75000)) initial_inputs))"]
    by blast
qed

subsection \<open>C4: no exception reaches the caller\<close>



subsection \<open>C5: the totals are the sums over the breakdown\<close>

text \<open>
  Claim C5. For every input, \<open>totalValue\<close> is the sum of the \<open>value\<close> fields of the
  breakdown entries, and the aggregates \<open>minValue\<close> and \<open>maxValue\<close> from which \<open>minROI\<close>
  and \<open>maxROI\<close> are computed are the sums of the \<open>min\<close> and \<open>max\<close> fields. The sums are
  taken in insertion order with JavaScript's addition, so the equalities are exact: the
  \<^verbatim>\<open>|| 0\<close> and \<^verbatim>\<open>isNaN\<close> guards of the reducers never change a summand.
\<close>

theorem C5_totals_are_sums:
  "totalValue (calculateROI inputs q)
     = sum_js (map (val \<circ> snd) (breakdown (calculateROI inputs q)))
   \<and> aggregate minv (breakdown (calculateROI inputs q))
     = sum_js (map (minv \<circ> snd) (breakdown (calculateROI inputs q)))
   \<and> aggregate maxv (breakdown (calculateROI inputs q))
     = sum_js (map (maxv \<circ> snd) (breakdown (calculateROI inputs q)))
   \<and> minROI (calculateROI inputs q)
     = roi_of (sum_js (map (minv \<circ> snd) (breakdown (calculateROI inputs q))))
   \<and> maxROI (calculateROI inputs q)
     = roi_of (sum_js (map (maxv \<circ> snd) (breakdown (calculateROI inputs q))))"
proof -
  let ?bd = "breakdown (calculateROI inputs q)"
  have s: "aggregate val ?bd = sum_js (map (val \<circ> snd) ?bd)" "aggregate val ?bd \<noteq> NaN"
    "aggregate minv ?bd = sum_js (map (minv \<circ> snd) ?bd)"
    "aggregate maxv ?bd = sum_js (map (maxv \<circ> snd) ?bd)"
    using calculateROI_sums [of inputs q] by blast+
  have "totalValue (calculateROI inputs q) = aggregate val ?bd"
    using s(2) by (simp add: calculateROI_fields(1) isNaN_def)
  then show ?thesis
    using s(1,3,4) calculateROI_fields(3) [of inputs q] calculateROI_fields(4) [of inputs q]
    by simp
qed

subsection \<open>C6: the ROI formula\<close>

text \<open>
  Claim C6. For every input the reported \<open>roi\<close> is \<^verbatim>\<open>(totalValue - 795) / 795 * 100\<close>
  when the returned \<open>totalValue\<close> is positive and \<open>-100\<close> otherwise, computed with the
  engine's own arithmetic, so recomputing it from the returned \<open>totalValue\<close> gives the
  reported number exactly; \<open>minROI\<close> and \<open>maxROI\<close> are the same formula applied to the
  aggregated \<open>min\<close> and \<open>max\<close> of the returned breakdown.
\<close>

theorem C6_roi_formula:
  "roi (calculateROI inputs q) =
     (if js_lt (Fin 0) (totalValue (calculateROI inputs q))
      then js_mul (js_div (js_sub (totalValue (calculateROI inputs q)) (Fin 795)) (Fin 795)) (Fin 100)
      else Fin (- 100))
   \<and> minROI (calculateROI inputs q) =
     (let minValue = aggregate minv (breakdown (calculateROI inputs q))
      in if js_lt (Fin 0) minValue
         then js_mul (js_div (js_sub minValue (Fin 795)) (Fin 795)) (Fin 100) else Fin (- 100))
   \<and> maxROI (calculateROI inputs q) =
     (let maxValue = aggregate maxv (breakdown (calculateROI inputs q))
      in if js_lt (Fin 0) maxValue
         then js_mul (js_div (js_sub maxValue (Fin 795)) (Fin 795)) (Fin 100) else Fin (- 100))"
proof -
  obtain bd where r: "calculateROI inputs q =
     \<lparr>totalValue = (if isNaN (aggregate val bd) then Fin 0 else aggregate val bd),
      totalCost = Fin 795, roi = roi_of (aggregate val bd), minROI = roi_of (aggregate minv bd),
      maxROI = roi_of (aggregate maxv bd), breakdown = bd\<rparr>"
    using calculateROI_assembled by blast
  have "roi_of (aggregate val bd) = roi_of (if isNaN (aggregate val bd) then Fin 0 else aggregate val bd)"
    by (simp add: isNaN_def roi_of_NaN)
  then show ?thesis unfolding r by (simp add: roi_of_def Let_def)
qed

subsection \<open>C7: monotonicity of the points value\<close>

text \<open>
  Claim C7 says that a larger spending field never lowers \<^verbatim>\<open>points.value\<close>. The largest
  number is \<^verbatim>\<open>Infinity\<close>, which \<^verbatim>\<open>validateInputs\<close> replaces by 0: raising \<^verbatim>\<open>chaseTravel\<close>
  from 1000 to \<^verbatim>\<open>Infinity\<close> lowers the points value from 140 to 0.
\<close>

theorem C7_counterexample:
  "js_lt (Fin 1000) PInf
   \<and> map_option val (lookup (breakdown (compute (Obj
        (setInputs ''chaseTravel'' (Num (Fin 1000)) initial_inputs)))) ''points'') = Some (Fin 140)
   \<and> map_option val (lookup (breakdown (compute (Obj
        (setInputs ''chaseTravel'' (Num PInf) initial_inputs)))) ''points'') = Some (Fin 0)
   \<and> \<not> js_le (Fin 140) (Fin 0)"
  by (simp add: lookup_points_1000 lookup_points_Inf)

text \<open>
  Claim C7, amended. For every pair of input profiles that differ only in one spending
  field, where that field is a finite number in both profiles and larger in the second,
  and where both results have a \<open>points\<close> entry (neither is the fallback), the
  \<^verbatim>\<open>points.value\<close> of the second result is greater than or equal to that of the first.
\<close>

theorem C7_points_monotone:
  assumes "k \<in> set [''chaseTravel'', ''flightsHotels'', ''dining'', ''otherSpending'']"
    and "map_of ob k = Some (Num (Fin a))" and "a \<le> b"
    and "lookup (breakdown (compute (Obj ob))) ''points'' = Some p1"
    and "lookup (breakdown (compute (Obj (setInputs k (Num (Fin b)) ob)))) ''points'' = Some p2"
  shows "js_le (val p1) (val p2)"
proof -
  let ?ob' = "setInputs k (Num (Fin b)) ob"
  have ne: "breakdown (compute (Obj ob)) \<noteq> []" "breakdown (compute (Obj ?ob')) \<noteq> []"
    using assms(4,5) by (auto simp add: lookup_def)
  obtain t where t: "totalPoints (map (\<lambda>(k, v). (k, sanitize v)) ob) = Fin t"
    and b1: "breakdown (compute (Obj ob))
      = points (Fin t) @ others (map (\<lambda>(k, v). (k, sanitize v)) ob) (qualifiesForHighSpender (Obj ob))"
    using breakdown_nonempty ne(1) unfolding compute_def by blast
  obtain t' where t': "totalPoints (map (\<lambda>(k, v). (k, sanitize v)) ?ob') = Fin t'"
    and b2: "breakdown (compute (Obj ?ob'))
      = points (Fin t') @ others (map (\<lambda>(k, v). (k, sanitize v)) ?ob') (qualifiesForHighSpender (Obj ?ob'))"
    using breakdown_nonempty ne(2) unfolding compute_def by blast
  have v1: "val p1 = js_mul (Fin t) POINT_VALUES_avg"
    using assms(4) points_value [of "Fin t"] by (auto simp add: b1 lookup_built)
  have v2: "val p2 = js_mul (Fin t') POINT_VALUES_avg"
    using assms(5) points_value [of "Fin t'"] by (auto simp add: b2 lookup_built)
  have "t \<le> t'" using assms(2,3) t t' by (rule totalPoints_mono)
  then have "js_le (js_mul (Fin t) POINT_VALUES_avg) (js_mul (Fin t') POINT_VALUES_avg)"
    unfolding POINT_VALUES_avg_eq by (intro js_mul_pos_mono) simp_all
  then show ?thesis by (simp add: v1 v2)
qed

text \<open>Witness for C7: the initial state, and the initial state with \<^verbatim>\<open>chaseTravel = 1000\<close>.\<close>

theorem C7_witness:
  "lookup (breakdown (compute (Obj initial_inputs))) ''points''
     = Some \<lparr>val = Fin 0, minv = Fin 0, maxv = Fin 0,
         details = [ToLocaleString (Fin 0), Lit '' points earned'']\<rparr>
   \<and> lookup (breakdown (compute (Obj (setInputs ''chaseTravel'' (Num (Fin 1000)) initial_inputs)))) ''points''
     = Some \<lparr>val = Fin 140, minv = Fin 120, maxv = Fin 160,
         details = [ToLocaleString (Fin 8000), Lit '' points earned'']\<rparr>
   \<and> js_le (val \<lparr>val = Fin 0, minv = Fin 0, maxv = Fin 0,
         details = [ToLocaleString (Fin 0), Lit '' points earned'']\<rparr>)
        (val \<lparr>val = Fin 140, minv = Fin 120, maxv = Fin 160,
         details = [ToLocaleString (Fin 8000), Lit '' points earned'']\<rparr>)"
proof -
  have k: "''chaseTravel'' \<in> set [''chaseTravel'', ''flightsHotels'', ''dining'', ''otherSpending'']"
    by simp
  have a: "map_of initial_inputs ''chaseTravel'' = Some (Num (Fin 0))"
    by (simp add: map_of_initial_inputs)
  have le: "(0::rat) \<le> 1000" by simp
  from C7_points_monotone [OF k a le lookup_points_initial lookup_points_1000]
  show ?thesis using lookup_points_initial lookup_points_1000 by blast
qed

subsection \<open>C8: the caps\<close>

text \<open>
  Claim C8. In every result that is not the fallback, a state with
  \<^verbatim>\<open>travelCreditUsage = 1000\<close> has \<^verbatim>\<open>travelCredit.value = 300\<close>, and a state with
  \<^verbatim>\<open>pelotonEquipment = 9000\<close> has a \<open>peloton\<close> entry whose value is the membership part
  (120 or 0) plus \<^verbatim>\<open>5000 * 9\<close> bonus points priced at \<^verbatim>\<open>0.0175\<close>, which is not what 9000
  would give.
\<close>

theorem C8_caps:
  "(map_of ob ''travelCreditUsage'' = Some (Num (Fin 1000))
      \<and> breakdown (calculateROI (Obj ob) q) \<noteq> []
    \<longrightarrow> map_option val (lookup (breakdown (calculateROI (Obj ob) q)) ''travelCredit'')
          = Some (Fin 300))
   \<and> (map_of ob ''pelotonEquipment'' = Some (Num (Fin 9000))
      \<and> breakdown (calculateROI (Obj ob) q) \<noteq> []
    \<longrightarrow> map_option val (lookup (breakdown (calculateROI (Obj ob) q)) ''peloton'')
          = Some (js_add
              (if ToBoolean (get (map (\<lambda>(k, v). (k, sanitize v)) ob) ''pelotonMembership'')
               then js_add (Fin 0) (Fin 120) else Fin 0)
              (js_mul (js_mul (Fin 5000) (Fin 9)) POINT_VALUES_avg)))
   \<and> js_mul (js_mul (Fin 5000) (Fin 9)) POINT_VALUES_avg
      \<noteq> js_mul (js_mul (Fin 9000) (Fin 9)) POINT_VALUES_avg"
proof -
  have 3: "js_mul (js_mul (Fin 5000) (Fin 9)) POINT_VALUES_avg
      \<noteq> js_mul (js_mul (Fin 9000) (Fin 9)) POINT_VALUES_avg"
    by (simp add: POINT_VALUES_avg_def round64_eval)
  show ?thesis
    using 3 travelCredit_capped [of ob] peloton_capped [of ob] breakdown_nonempty [of ob q]
    by (auto simp add: lookup_built)
qed

text \<open>
  Witness for C8: the initial state with \<^verbatim>\<open>travelCreditUsage = 1000\<close> and
  \<^verbatim>\<open>pelotonEquipment = 9000\<close>.
\<close>

theorem C8_witness:
  "map_option val (lookup (breakdown (calculateROI (Obj (setInputs ''pelotonEquipment'' (Num (Fin 9000))
       (setInputs ''travelCreditUsage'' (Num (Fin 1000)) initial_inputs))) False)) ''travelCredit'')
     = Some (Fin 300)
   \<and> map_option val (lookup (breakdown (calculateROI (Obj (setInputs ''pelotonEquipment'' (Num (Fin 9000))
       (setInputs ''travelCreditUsage'' (Num (Fin 1000)) initial_inputs))) False)) ''peloton'')
     = Some (js_add (Fin 0) (js_mul (js_mul (Fin 5000) (Fin 9)) POINT_VALUES_avg))"
proof -
  let ?ob = "setInputs ''pelotonEquipment'' (Num (Fin 9000))
       (setInputs ''travelCreditUsage'' (Num (Fin 1000)) initial_inputs)"
  have a: "map_of ?ob ''travelCreditUsage'' = Some (Num (Fin 1000))"
    by (simp add: map_of_setInputs)
  have b: "map_of ?ob ''pelotonEquipment'' = Some (Num (Fin 9000))"
    by (simp add: map_of_setInputs)
  have c: "breakdown (calculateROI (Obj ?ob) False) \<noteq> []"
    by (simp add: breakdown_built [OF caps_points])
  have d: "\<not> ToBoolean (get (map (\<lambda>(k, v). (k, sanitize v)) ?ob) ''pelotonMembership'')"
    by (simp add: get_sanitized map_of_setInputs map_of_initial_inputs)
  show ?thesis using C8_caps [of ?ob False] a b c d by simp
qed

subsection \<open>C9: negative spending is not rejected\<close>

text \<open>
  Claim C9. \<^verbatim>\<open>validateInputs\<close> keeps a finite negative number as it is, so a negative
  spending field reaches the point total: with \<^verbatim>\<open>otherSpending = -1000\<close> and every other
  field zero or false, the \<open>points\<close> entry has the value \<open>-17.5\<close>, which is negative, and
  \<open>totalValue\<close> is \<open>-17.5\<close> as well.
\<close>

theorem C9_negative_spending:
  "(\<forall>ob k x safe. x < 0 \<and> map_of ob k = Some (Num (Fin x)) \<and> validateInputs (Obj ob) = Inr safe
      \<longrightarrow> get safe k = Num (Fin x))
   \<and> map_option val (lookup (breakdown
         (compute (Obj (setInputs ''otherSpending'' (Num (Fin (- 1000))) zero_inputs)))) ''points'')
       = Some (Fin (- (35 / 2)))
   \<and> totalValue (compute (Obj (setInputs ''otherSpending'' (Num (Fin (- 1000))) zero_inputs)))
       = Fin (- (35 / 2))
   \<and> map_option (\<lambda>p. js_lt (val p) (Fin 0)) (lookup (breakdown
         (compute (Obj (setInputs ''otherSpending'' (Num (Fin (- 1000))) zero_inputs)))) ''points'')
       = Some True
   \<and> js_lt (totalValue (compute (Obj (setInputs ''otherSpending'' (Num (Fin (- 1000))) zero_inputs))))
        (Fin 0)"
proof -
  have 1: "\<forall>ob k x safe. x < 0 \<and> map_of ob k = Some (Num (Fin x))
      \<and> validateInputs (Obj ob) = Inr safe \<longrightarrow> get safe k = Num (Fin x)"
    by (auto simp add: get_validated isNaN_def isFinite_def)
  have 2: "map_option val (lookup (breakdown
         (compute (Obj (setInputs ''otherSpending'' (Num (Fin (- 1000))) zero_inputs)))) ''points'')
       = Some (Fin (- (35 / 2)))
   \<and> totalValue (compute (Obj (setInputs ''otherSpending'' (Num (Fin (- 1000))) zero_inputs)))
       = Fin (- (35 / 2))
   \<and> map_option (\<lambda>p. js_lt (val p) (Fin 0)) (lookup (breakdown
         (compute (Obj (setInputs ''otherSpending'' (Num (Fin (- 1000))) zero_inputs)))) ''points'')
       = Some True
   \<and> js_lt (totalValue (compute (Obj (setInputs ''otherSpending'' (Num (Fin (- 1000))) zero_inputs))))
        (Fin 0)"
    unfolding compute_def negative_result by (simp add: total_eval)
  show ?thesis using 1 2 by blast
qed

text \<open>Witness for C9: the sanitized \<^verbatim>\<open>otherSpending\<close> of that state is still \<open>-1000\<close>.\<close>

theorem C9_witness:
  "get (map (\<lambda>(k, v). (k, sanitize v))
        (setInputs ''otherSpending'' (Num (Fin (- 1000))) zero_inputs)) ''otherSpending''
     = Num (Fin (- 1000))"
proof -
  have a: "(- 1000 :: rat) < 0" by simp
  have b: "map_of (setInputs ''otherSpending'' (Num (Fin (- 1000))) zero_inputs) ''otherSpending''
             = Some (Num (Fin (- 1000)))"
    by (simp add: map_of_setInputs)
  have c: "validateInputs (Obj (setInputs ''otherSpending'' (Num (Fin (- 1000))) zero_inputs))
             = Inr (map (\<lambda>(k, v). (k, sanitize v))
                 (setInputs ''otherSpending'' (Num (Fin (- 1000))) zero_inputs))"
    by simp
  show ?thesis using C9_negative_spending a b c by blast
qed

subsection \<open>C10: the ordering of the bands\<close>

text \<open>
  Claim C10 says that \<open>min \<le> value \<le> max\<close> holds for every entry of every profile. The
  band of \<open>points\<close> is \<^verbatim>\<open>[totalPoints * 0.015, totalPoints * 0.020]\<close>, which is inverted when
  the total is negative: with \<^verbatim>\<open>otherSpending = -1000\<close> the entry has \<open>min = -15\<close>,
  \<open>value = -17.5\<close> and \<open>max = -20\<close>.
\<close>

theorem C10_counterexample:
  "map_option (\<lambda>b. js_le (minv b) (val b)) (lookup (breakdown
       (compute (Obj (setInputs ''otherSpending'' (Num (Fin (- 1000))) zero_inputs)))) ''points'')
     = Some False"
  unfolding compute_def negative_result by (simp add: total_eval)

text \<open>
  Claim C10, amended. For every input whose sanitized point total
  \<^verbatim>\<open>chaseTravel*8 + flightsHotels*4 + dining*3 + otherSpending*1\<close> is not negative, the
  result satisfies \<open>minROI \<le> roi \<le> maxROI\<close> and every breakdown entry satisfies
  \<open>min \<le> value \<le> max\<close>. (An input that is not an object has no sanitized total and
  gets the fallback, which is ordered.)
\<close>

theorem C10_band_ordering:
  assumes "\<forall>safe. validateInputs inputs = Inr safe \<longrightarrow> \<not> js_lt (totalPoints safe) (Fin 0)"
  shows "js_le (minROI (calculateROI inputs q)) (roi (calculateROI inputs q))
    \<and> js_le (roi (calculateROI inputs q)) (maxROI (calculateROI inputs q))
    \<and> (\<forall>(k, b) \<in> set (breakdown (calculateROI inputs q)).
          js_le (minv b) (val b) \<and> js_le (val b) (maxv b))"
proof -
  let ?bd = "breakdown (calculateROI inputs q)"
  have bands: "\<forall>(k, b) \<in> set ?bd. band_ok b"
  proof -
    from calculateROI_breakdown [of inputs q]
    consider (empty) "?bd = []"
      | (built) safe t where "validateInputs inputs = Inr safe" "totalPoints safe = Fin t"
          "?bd = points (Fin t) @ others safe q"
      by blast
    then show ?thesis
    proof cases
      case empty
      then show ?thesis by simp
    next
      case built
      then have "0 \<le> t" using assms by auto
      then have "\<forall>(k, b) \<in> set (points (Fin t) @ others safe q). band_ok b"
        using built_bands [OF built(2)] by blast
      then show ?thesis by (simp only: built(3))
    qed
  qed
  have s: "aggregate val ?bd = sum_js (map (val \<circ> snd) ?bd)"
    "aggregate minv ?bd = sum_js (map (minv \<circ> snd) ?bd)"
    "aggregate maxv ?bd = sum_js (map (maxv \<circ> snd) ?bd)"
    using calculateROI_sums [of inputs q] by blast+
  have "\<forall>(k, b) \<in> set ?bd. nonneg (minv b) \<and> js_le (minv b) (val b)"
    using bands by (auto simp add: band_ok_def)
  then have 1: "js_le (aggregate minv ?bd) (aggregate val ?bd)"
    unfolding s by (rule sum_js_mono)
  have "\<forall>(k, b) \<in> set ?bd. nonneg (val b) \<and> js_le (val b) (maxv b)"
    using bands band_ok_nonneg(2) by (auto simp add: band_ok_def)
  then have 2: "js_le (aggregate val ?bd) (aggregate maxv ?bd)"
    unfolding s by (rule sum_js_mono)
  show ?thesis
    using roi_of_mono [OF 1] roi_of_mono [OF 2] bands
    by (auto simp add: calculateROI_fields band_ok_def)
qed

text \<open>Witness for C10: the initial state, whose point total is 0.\<close>

theorem C10_witness:
  "\<not> js_lt (totalPoints (map (\<lambda>(k, v). (k, sanitize v)) initial_inputs)) (Fin 0)
   \<and> js_le (minROI (calculateROI (Obj initial_inputs) True)) (roi (calculateROI (Obj initial_inputs) True))
   \<and> js_le (roi (calculateROI (Obj initial_inputs) True)) (maxROI (calculateROI (Obj initial_inputs) True))"
proof -
  have t: "totalPoints (map (\<lambda>(k, v). (k, sanitize v)) initial_inputs) = Fin 0"
    by (simp add: category_eval)
  then have "\<forall>safe. validateInputs (Obj initial_inputs) = Inr safe
      \<longrightarrow> \<not> js_lt (totalPoints safe) (Fin 0)"
    by auto
  from C10_band_ordering [OF this, of True] show ?thesis using t by simp
qed

end
